theory Spec2Isabelle
  imports Main "HOL-Library.Sublist" "HOL-Library.Char_ord" "HOL-Library.List_Lexorder"
begin

section \<open>Course offerings and the time grid (timetable_analyzer.py, class Course)\<close>

text \<open>
  A Python \<open>str\<close> is a \<open>string\<close>, an \<open>Optional[str]\<close> a \<open>string option\<close>. The field
  \<open>section\<close> of the dataclass is called \<open>section_label\<close> here, because \<open>section\<close> is a
  keyword of the theory language; every other field keeps its name.
\<close>

record course =
  code :: string
  title :: string
  short_title :: string
  section_label :: string
  instructor :: string
  instructor_short :: string
  credit_hours :: int
  category :: string
  day1 :: "string option"
  slot1 :: "string option"
  venue1 :: "string option"
  day2 :: "string option"
  slot2 :: "string option"
  venue2 :: "string option"
  duration_minutes :: int

definition TIME_SLOT_ORDER :: "string list" where
  "TIME_SLOT_ORDER =
     [''08:30'', ''10:00'', ''11:30'', ''13:00'', ''14:30'', ''16:00'', ''17:30'', ''19:00'']"

text \<open>Truth value of an \<open>Optional[str]\<close> in a condition: neither \<open>None\<close> nor empty.\<close>

fun truthy :: "string option \<Rightarrow> bool" where
  "truthy None = False"
| "truthy (Some s) = (s \<noteq> [])"

text \<open>\<open>v or d\<close> on an \<open>Optional[str]\<close>.\<close>

fun or_default :: "string option \<Rightarrow> string \<Rightarrow> string" where
  "or_default None d = d"
| "or_default (Some s) d = (if s = [] then d else s)"

text \<open>The value of a field that a condition has found truthy.\<close>

fun the_str :: "string option \<Rightarrow> string" where
  "the_str None = []"
| "the_str (Some s) = s"

text \<open>\<open>a in b\<close> on strings: \<open>a\<close> occurs in \<open>b\<close> as a contiguous run.\<close>

fun contains :: "string \<Rightarrow> string \<Rightarrow> bool" where
  "contains a [] = (a = [])"
| "contains a (y # ys) = (prefix a (y # ys) \<or> contains a ys)"

definition is_lab :: "course \<Rightarrow> bool" where
  "is_lab c = (duration_minutes c > 100 \<or> contains ''Lab'' (title c))"

text \<open>\<open>list.index\<close>: the first position of the value, \<open>None\<close> where Python raises
  \<open>ValueError\<close>.\<close>

fun list_index :: "'a \<Rightarrow> 'a list \<Rightarrow> nat option" where
  "list_index x [] = None"
| "list_index x (y # ys) = (if y = x then Some 0 else map_option Suc (list_index x ys))"

text \<open>\<open>Course._get_next_slot\<close>: the \<open>ValueError\<close> is caught and the function falls
  through to \<open>return None\<close>.\<close>

definition get_next_slot :: "string \<Rightarrow> string option" where
  "get_next_slot slot =
     (case list_index slot TIME_SLOT_ORDER of
        None \<Rightarrow> None
      | Some idx \<Rightarrow>
          if idx + 1 < length TIME_SLOT_ORDER then Some (TIME_SLOT_ORDER ! (idx + 1))
          else None)"

text \<open>
  \<open>Course.get_time_slots\<close> runs the same block for the first and for the second meeting;
  \<open>meeting_slots\<close> is that block, \<open>get_time_slots\<close> the two runs one after the other.
\<close>

definition meeting_slots ::
  "course \<Rightarrow> string option \<Rightarrow> string option \<Rightarrow> string option \<Rightarrow> (string \<times> string \<times> string) list"
where
  "meeting_slots c day slot venue =
     (if truthy day \<and> truthy slot then
        (the_str day, the_str slot, or_default venue ''TBD'') #
        (if is_lab c then
           (case get_next_slot (the_str slot) of
              None \<Rightarrow> []
            | Some next_slot \<Rightarrow>
                if next_slot \<noteq> [] then [(the_str day, next_slot, or_default venue ''TBD'')]
                else [])
         else [])
      else [])"

definition get_time_slots :: "course \<Rightarrow> (string \<times> string \<times> string) list" where
  "get_time_slots c =
     meeting_slots c (day1 c) (slot1 c) (venue1 c) @ meeting_slots c (day2 c) (slot2 c) (venue2 c)"

text \<open>\<open>Course.conflicts_with\<close>: the two nested loops return \<open>True\<close> at the first pair of
  slots with the same day and start.\<close>

definition conflicts_with :: "course \<Rightarrow> course \<Rightarrow> bool" where
  "conflicts_with c other =
     list_ex (\<lambda>(d1, s1, _). list_ex (\<lambda>(d2, s2, _). d1 = d2 \<and> s1 = s2) (get_time_slots other))
       (get_time_slots c)"

section \<open>Constraints (class TimetableConstraints)\<close>

text \<open>
  A value of \<open>section_preferences\<close> is a string (\<open>'any'\<close> or one section) or a list of
  sections; the generator tells them apart with \<open>isinstance\<close>. A \<open>dict\<close> that the code
  iterates is an association list in insertion order; a quota is a \<open>nat\<close>, every caller
  storing a count only when it is positive.
\<close>

datatype section_pref = PrefStr string | PrefList "string list"

record constraints =
  excluded_instructors :: "string list"
  excluded_time_slots :: "string list"
  required_courses :: "string list"
  wildcard_counts :: "(string \<times> nat) list"
  section_preferences :: "string \<rightharpoonup> section_pref"
  batch :: string

definition get_semester_prefix :: "constraints \<Rightarrow> string" where
  "get_semester_prefix cons =
     (case map_of
        [(''BCS-2025'', ''BCS-2''), (''BCS-2024'', ''BCS-4''), (''BCS-2023'', ''BCS-6''),
         (''BCS-2022'', ''BCS-8''), (''BCS-2021'', ''BCS-10'')] (batch cons) of
        Some p \<Rightarrow> p
      | None \<Rightarrow> ''BCS-8'')"

section \<open>Dictionaries in insertion order\<close>

text \<open>
  \<open>d[k] = v\<close> on a \<open>dict\<close>: an existing key keeps its place, a new key goes to the end.
  Lookup is \<open>map_of\<close>.
\<close>

fun dict_set :: "'k \<Rightarrow> 'v \<Rightarrow> ('k \<times> 'v) list \<Rightarrow> ('k \<times> 'v) list" where
  "dict_set k v [] = [(k, v)]"
| "dict_set k v ((k', v') # d) = (if k' = k then (k, v) # d else (k', v') # dict_set k v d)"

text \<open>\<open>d.get(k, [])\<close>.\<close>

definition get_list :: "('k \<times> 'v list) list \<Rightarrow> 'k \<Rightarrow> 'v list" where
  "get_list d k = (case map_of d k of None \<Rightarrow> [] | Some l \<Rightarrow> l)"

text \<open>The idiom \<open>if k not in d: d[k] = []\<close> followed by \<open>d[k].append(x)\<close>.\<close>

definition dict_append :: "'k \<Rightarrow> 'v \<Rightarrow> ('k \<times> 'v list) list \<Rightarrow> ('k \<times> 'v list) list" where
  "dict_append k x d =
     (let d' = (if map_of d k = None then dict_set k [] d else d)
      in dict_set k (get_list d' k @ [x]) d')"

section \<open>The constraint filter (TimetableAnalyzer.filter_courses)\<close>

text \<open>\<open>str.lower\<close> on the letters A to Z; other characters are left as they are.\<close>

definition lower_char :: "char \<Rightarrow> char" where
  "lower_char c =
     (let n = (of_char c :: nat) in if 65 \<le> n \<and> n \<le> 90 then char_of (n + 32) else c)"

definition lower :: "string \<Rightarrow> string" where
  "lower s = map lower_char s"

definition instructor_excluded :: "constraints \<Rightarrow> course \<Rightarrow> bool" where
  "instructor_excluded cons c =
     (excluded_instructors cons \<noteq> [] \<and>
      list_ex (\<lambda>exc. contains (lower exc) (lower (instructor c)) \<or>
                     contains (lower exc) (lower (instructor_short c)))
        (excluded_instructors cons))"

definition slot_excluded :: "constraints \<Rightarrow> course \<Rightarrow> bool" where
  "slot_excluded cons c =
     (excluded_time_slots cons \<noteq> [] \<and>
      list_ex (\<lambda>slot. list_ex (\<lambda>exc_slot. fst (snd slot) \<noteq> [] \<and> prefix exc_slot (fst (snd slot)))
                 (excluded_time_slots cons))
        (get_time_slots c))"

text \<open>The loop over the catalog; every \<open>continue\<close> is a branch that drops the course.\<close>

fun filter_courses :: "course list \<Rightarrow> constraints \<Rightarrow> course list" where
  "filter_courses [] cons = []"
| "filter_courses (c # cs) cons =
     (if \<not> prefix ''BCS-'' (section_label c) then filter_courses cs cons
      else
        let is_required = (short_title c \<in> set (required_courses cons)) in
        if \<not> is_required \<and> \<not> prefix (get_semester_prefix cons) (section_label c)
        then filter_courses cs cons
        else if instructor_excluded cons c then filter_courses cs cons
        else if slot_excluded cons c then filter_courses cs cons
        else c # filter_courses cs cons)"

section \<open>Grouping and wildcard categories\<close>

fun get_unique_courses_loop ::
  "course list \<Rightarrow> (string \<times> course list) list \<Rightarrow> (string \<times> course list) list" where
  "get_unique_courses_loop [] grouped = grouped"
| "get_unique_courses_loop (c # cs) grouped =
     get_unique_courses_loop cs (dict_append (short_title c) c grouped)"

definition get_unique_courses :: "course list \<Rightarrow> (string \<times> course list) list" where
  "get_unique_courses courses = get_unique_courses_loop courses []"

definition UNIVERSITY_ELECTIVE_CATEGORIES :: "string list" where
  "UNIVERSITY_ELECTIVE_CATEGORIES = [''MG (Elective)'', ''HSS (Elective)'', ''Mandatory Elec'']"

definition matches_wildcard :: "string \<Rightarrow> string \<Rightarrow> bool" where
  "matches_wildcard course_category wildcard =
     (if wildcard = ''University Elective''
        then course_category \<in> set UNIVERSITY_ELECTIVE_CATEGORIES
      else if wildcard = ''CS Elective'' then course_category = ''CS (Elective)''
      else if wildcard = ''Robo Elective'' then course_category = ''Robo (Elective)''
      else course_category = wildcard)"

section \<open>Conflicts and slot patterns of a selection\<close>

fun has_conflicts :: "course list \<Rightarrow> bool" where
  "has_conflicts [] = False"
| "has_conflicts (c1 # rest) = (list_ex (conflicts_with c1) rest \<or> has_conflicts rest)"

text \<open>\<open>_get_slot_pattern\<close>: the strings \<open>day_time\<close> of every occupied slot, sorted. The
  order on strings is the lexicographic order on character codes, as in Python.\<close>

definition slot_strings :: "course \<Rightarrow> string list" where
  "slot_strings c = map (\<lambda>(day, time, _). day @ ''_'' @ time) (get_time_slots c)"

definition get_slot_pattern :: "course list \<Rightarrow> string list" where
  "get_slot_pattern courses = sort (concat (map slot_strings courses))"

section \<open>itertools\<close>

text \<open>\<open>itertools.product(*lists)\<close>: the last list varies fastest; no list gives the one
  empty tuple.\<close>

fun iter_product :: "'a list list \<Rightarrow> 'a list list" where
  "iter_product [] = [[]]"
| "iter_product (xs # xss) = concat (map (\<lambda>x. map ((#) x) (iter_product xss)) xs)"

text \<open>\<open>itertools.combinations(xs, r)\<close>: the subsequences of length \<open>r\<close>, in the
  lexicographic order of their positions.\<close>

fun iter_combinations :: "'a list \<Rightarrow> nat \<Rightarrow> 'a list list" where
  "iter_combinations xs 0 = [[]]"
| "iter_combinations [] (Suc r) = []"
| "iter_combinations (x # xs) (Suc r) =
     map ((#) x) (iter_combinations xs r) @ iter_combinations xs (Suc r)"

section \<open>The generator (TimetableAnalyzer.generate_timetables)\<close>

text \<open>What the generator prints; it never raises.\<close>

datatype diagnostic =
  SectionNotFound section_pref string
| CourseNotFound string
| NoRequiredCourses

fun pref_truthy :: "section_pref \<Rightarrow> bool" where
  "pref_truthy (PrefStr s) = (s \<noteq> [])"
| "pref_truthy (PrefList l) = (l \<noteq> [])"

text \<open>
  The body of the loop over \<open>required_courses\<close>, for a name that \<open>grouped\<close> has: the
  option list appended to \<open>required_options\<close> and the warnings printed on the way.
\<close>

definition section_options ::
  "constraints \<Rightarrow> string \<Rightarrow> course list \<Rightarrow> course list \<times> diagnostic list" where
  "section_options cons course_name course_sections =
     (let section_pref =
            (case section_preferences cons course_name of
               None \<Rightarrow> PrefStr ''any'' | Some p \<Rightarrow> p)
      in
        if pref_truthy section_pref \<and> section_pref \<noteq> PrefStr ''any'' then
          (let filtered_sections =
                 (case section_pref of
                    PrefList l \<Rightarrow> filter (\<lambda>c. section_label c \<in> set l) course_sections
                  | PrefStr s \<Rightarrow> filter (\<lambda>c. section_label c = s) course_sections)
           in
             if filtered_sections \<noteq> [] then (filtered_sections, [])
             else (course_sections, [SectionNotFound section_pref course_name]))
        else (course_sections, []))"

fun required_loop ::
  "constraints \<Rightarrow> (string \<times> course list) list \<Rightarrow> string list \<Rightarrow>
   course list list \<times> diagnostic list \<Rightarrow> course list list \<times> diagnostic list" where
  "required_loop cons grouped [] acc = acc"
| "required_loop cons grouped (course_name # rest) (required_options, out) =
     (case map_of grouped course_name of
        Some course_sections \<Rightarrow>
          (let (opts, warn) = section_options cons course_name course_sections
           in required_loop cons grouped rest (required_options @ [opts], out @ warn))
      | None \<Rightarrow>
          required_loop cons grouped rest (required_options, out @ [CourseNotFound course_name]))"

text \<open>The inner loop over the wildcard keys, left with \<open>break\<close> at the first match.\<close>

fun first_wildcard :: "string \<Rightarrow> string list \<Rightarrow> string option" where
  "first_wildcard course_category [] = None"
| "first_wildcard course_category (wildcard_cat # rest) =
     (if matches_wildcard course_category wildcard_cat then Some wildcard_cat
      else first_wildcard course_category rest)"

fun wildcard_pools_loop ::
  "constraints \<Rightarrow> course list \<Rightarrow> (string \<times> course list) list \<Rightarrow> (string \<times> course list) list"
where
  "wildcard_pools_loop cons [] pools = pools"
| "wildcard_pools_loop cons (c # cs) pools =
     (if short_title c \<notin> set (required_courses cons) then
        (case first_wildcard (category c) (map fst (wildcard_counts cons)) of
           None \<Rightarrow> wildcard_pools_loop cons cs pools
         | Some wildcard_cat \<Rightarrow> wildcard_pools_loop cons cs (dict_append wildcard_cat c pools))
      else wildcard_pools_loop cons cs pools)"

text \<open>\<open>{cat: [] for cat in constraints.wildcard_counts.keys()}\<close>, then the loop.\<close>

definition wildcard_pools :: "constraints \<Rightarrow> course list \<Rightarrow> (string \<times> course list) list" where
  "wildcard_pools cons filtered =
     wildcard_pools_loop cons filtered
       (foldl (\<lambda>d cat. dict_set cat [] d) [] (map fst (wildcard_counts cons)))"

definition wildcard_by_category ::
  "(string \<times> course list) list \<Rightarrow> (string \<times> string list) list" where
  "wildcard_by_category pools =
     foldl (\<lambda>d (cat, courses). dict_set cat (map fst (get_unique_courses courses)) d) [] pools"

definition wildcard_sections_by_name ::
  "(string \<times> course list) list \<Rightarrow> (string \<times> course list) list" where
  "wildcard_sections_by_name pools =
     foldl (\<lambda>d (cat, courses).
              foldl (\<lambda>d' (name, sections). dict_set name sections d') d
                (get_unique_courses courses))
       [] pools"

text \<open>\<open>_generate_wildcard_combos\<close>: the loop over \<open>wildcard_counts.items()\<close>, with
  \<open>all_combos\<close> as the accumulator.\<close>

fun generate_wildcard_combos_loop ::
  "(string \<times> nat) list \<Rightarrow> (string \<times> string list) list \<Rightarrow> string list list \<Rightarrow> string list list"
where
  "generate_wildcard_combos_loop [] wbc all_combos = all_combos"
| "generate_wildcard_combos_loop ((cat, count) # rest) wbc all_combos =
     (case map_of wbc cat of
        None \<Rightarrow> generate_wildcard_combos_loop rest wbc all_combos
      | Some available \<Rightarrow>
          if count = 0 then generate_wildcard_combos_loop rest wbc all_combos
          else
            let cat_combos = iter_combinations available (min count (length available));
                new_all = concat (map (\<lambda>existing. map (\<lambda>cat_combo. existing @ cat_combo) cat_combos)
                                    all_combos)
            in generate_wildcard_combos_loop rest wbc new_all)"

definition generate_wildcard_combos ::
  "(string \<times> nat) list \<Rightarrow> (string \<times> string list) list \<Rightarrow> string list list" where
  "generate_wildcard_combos wc wbc = generate_wildcard_combos_loop wc wbc [[]]"

text \<open>
  The state of the three nested loops: \<open>valid_timetables\<close> and \<open>seen_slot_patterns\<close> while
  they run, the returned list once \<open>return valid_timetables\<close> inside them has been reached.
\<close>

datatype gen_state =
  Running "course list list" "string list set"
| Returned "course list list"

fun timetables_of :: "gen_state \<Rightarrow> course list list" where
  "timetables_of (Running valid seen) = valid"
| "timetables_of (Returned valid) = valid"

text \<open>The block that both branches share: record an unseen pattern, append the
  selection, and return when the list has reached \<open>max_results\<close>.\<close>

definition emit :: "int \<Rightarrow> course list \<Rightarrow> course list list \<Rightarrow> string list set \<Rightarrow> gen_state" where
  "emit max_results sel valid seen =
     (let slot_pattern = get_slot_pattern sel in
      if slot_pattern \<notin> seen then
        (let seen' = insert slot_pattern seen; valid' = valid @ [sel] in
         if int (length valid') \<ge> max_results then Returned valid' else Running valid' seen')
      else Running valid seen)"

fun wc_section_loop :: "int \<Rightarrow> course list \<Rightarrow> course list list \<Rightarrow> gen_state \<Rightarrow> gen_state" where
  "wc_section_loop max_results req_list [] st = st"
| "wc_section_loop max_results req_list (wc_section_combo # rest) (Returned valid) = Returned valid"
| "wc_section_loop max_results req_list (wc_section_combo # rest) (Running valid seen) =
     (let full_combo = req_list @ wc_section_combo in
      if \<not> has_conflicts full_combo
      then wc_section_loop max_results req_list rest (emit max_results full_combo valid seen)
      else wc_section_loop max_results req_list rest (Running valid seen))"

text \<open>\<open>wildcard_section_options\<close> of one name combination: the section lists of the
  names that have one.\<close>

definition wildcard_section_options ::
  "(string \<times> course list) list \<Rightarrow> string list \<Rightarrow> course list list" where
  "wildcard_section_options wsbn wildcard_names =
     filter (\<lambda>sections. sections \<noteq> []) (map (get_list wsbn) wildcard_names)"

fun wildcard_names_loop ::
  "int \<Rightarrow> course list \<Rightarrow> (string \<times> course list) list \<Rightarrow> string list list \<Rightarrow> gen_state \<Rightarrow> gen_state"
where
  "wildcard_names_loop max_results req_list wsbn [] st = st"
| "wildcard_names_loop max_results req_list wsbn (wildcard_names # rest) (Returned valid) =
     Returned valid"
| "wildcard_names_loop max_results req_list wsbn (wildcard_names # rest) (Running valid seen) =
     (let opts = wildcard_section_options wsbn wildcard_names in
      if opts = []
      then wildcard_names_loop max_results req_list wsbn rest (emit max_results req_list valid seen)
      else wildcard_names_loop max_results req_list wsbn rest
             (wc_section_loop max_results req_list (iter_product opts) (Running valid seen)))"

fun req_combo_loop ::
  "int \<Rightarrow> (string \<times> course list) list \<Rightarrow> string list list \<Rightarrow> course list list \<Rightarrow>
   gen_state \<Rightarrow> gen_state" where
  "req_combo_loop max_results wsbn combos [] st = st"
| "req_combo_loop max_results wsbn combos (req_list # rest) (Returned valid) = Returned valid"
| "req_combo_loop max_results wsbn combos (req_list # rest) (Running valid seen) =
     (if has_conflicts req_list
      then req_combo_loop max_results wsbn combos rest (Running valid seen)
      else req_combo_loop max_results wsbn combos rest
             (wildcard_names_loop max_results req_list wsbn combos (Running valid seen)))"

text \<open>The values that \<open>generate_timetables\<close> computes before its loops.\<close>

definition grouped_of :: "course list \<Rightarrow> constraints \<Rightarrow> (string \<times> course list) list" where
  "grouped_of courses cons = get_unique_courses (filter_courses courses cons)"

definition required_options :: "course list \<Rightarrow> constraints \<Rightarrow> course list list" where
  "required_options courses cons =
     fst (required_loop cons (grouped_of courses cons) (required_courses cons) ([], []))"

definition pools_of :: "course list \<Rightarrow> constraints \<Rightarrow> (string \<times> course list) list" where
  "pools_of courses cons = wildcard_pools cons (filter_courses courses cons)"

definition wildcard_name_combos :: "course list \<Rightarrow> constraints \<Rightarrow> string list list" where
  "wildcard_name_combos courses cons =
     generate_wildcard_combos (wildcard_counts cons) (wildcard_by_category (pools_of courses cons))"

definition generate_timetables :: "course list \<Rightarrow> constraints \<Rightarrow> int \<Rightarrow> course list list" where
  "generate_timetables courses cons max_results =
     (let req_opts = required_options courses cons;
          wsbn = wildcard_sections_by_name (pools_of courses cons);
          combos = wildcard_name_combos courses cons
      in
        if req_opts = [] then []
        else timetables_of
               (req_combo_loop max_results wsbn combos (iter_product req_opts) (Running [] {})))"

text \<open>The warnings of one call, in the order they are printed.\<close>

definition generate_diagnostics :: "course list \<Rightarrow> constraints \<Rightarrow> diagnostic list" where
  "generate_diagnostics courses cons =
     (let (req_opts, out) =
            required_loop cons (grouped_of courses cons) (required_courses cons) ([], [])
      in if req_opts = [] then out @ [NoRequiredCourses] else out)"

section \<open>The enumeration that the loops walk through\<close>

text \<open>
  The full selections of one required combination, in the order of the two inner loops:
  for each name combination, the required picks followed by one section per wildcard name.
\<close>

definition candidates_for ::
  "(string \<times> course list) list \<Rightarrow> string list list \<Rightarrow> course list \<Rightarrow> course list list" where
  "candidates_for wsbn combos req_list =
     concat (map (\<lambda>names. map ((@) req_list) (iter_product (wildcard_section_options wsbn names)))
               combos)"

definition candidates :: "course list \<Rightarrow> constraints \<Rightarrow> course list list" where
  "candidates courses cons =
     concat (map (candidates_for (wildcard_sections_by_name (pools_of courses cons))
                    (wildcard_name_combos courses cons))
               (iter_product (required_options courses cons)))"

text \<open>The conflict-free full selections in enumeration order; none when no required
  course resolves.\<close>

definition enumeration :: "course list \<Rightarrow> constraints \<Rightarrow> course list list" where
  "enumeration courses cons =
     (if required_options courses cons = [] then []
      else filter (\<lambda>sel. \<not> has_conflicts sel) (candidates courses cons))"

text \<open>Deduplication as the specification words it: of the selections with one slot
  pattern, the first one encountered is kept.\<close>

fun first_per_pattern :: "course list list \<Rightarrow> string list set \<Rightarrow> course list list" where
  "first_per_pattern [] seen = []"
| "first_per_pattern (sel # rest) seen =
     (if get_slot_pattern sel \<in> seen then first_per_pattern rest seen
      else sel # first_per_pattern rest (insert (get_slot_pattern sel) seen))"

text \<open>The emission block run over a flat list of selections.\<close>

fun emit_all :: "int \<Rightarrow> course list list \<Rightarrow> gen_state \<Rightarrow> gen_state" where
  "emit_all k [] st = st"
| "emit_all k (sel # rest) (Returned valid) = Returned valid"
| "emit_all k (sel # rest) (Running valid seen) = emit_all k rest (emit k sel valid seen)"

text \<open>The occupied (day, slotStart) pairs of an offering.\<close>

definition slot_pairs :: "course \<Rightarrow> (string \<times> string) set" where
  "slot_pairs c = set (map (\<lambda>(d, s, _). (d, s)) (get_time_slots c))"

text \<open>An offering has meeting data when one of its two (day, slot) pairs is present.\<close>

definition has_meeting :: "course \<Rightarrow> bool" where
  "has_meeting c =
     (truthy (day1 c) \<and> truthy (slot1 c) \<or> truthy (day2 c) \<and> truthy (slot2 c))"

text \<open>The section labels that a preference names; none for \<open>'any'\<close> and for an empty
  value.\<close>

fun pref_labels :: "section_pref \<Rightarrow> string list" where
  "pref_labels (PrefStr s) = (if s = [] \<or> s = ''any'' then [] else [s])"
| "pref_labels (PrefList l) = l"

text \<open>The required names that have a group in the filtered catalog, and the number of
  wildcard offerings that the quotas and the pools allow.\<close>

definition resolvable_required :: "course list \<Rightarrow> constraints \<Rightarrow> string list" where
  "resolvable_required courses cons =
     filter (\<lambda>n. map_of (grouped_of courses cons) n \<noteq> None) (required_courses cons)"

definition wildcard_total :: "course list \<Rightarrow> constraints \<Rightarrow> nat" where
  "wildcard_total courses cons =
     sum_list (map (\<lambda>(cat, count).
                      min count (length (get_list (wildcard_by_category (pools_of courses cons)) cat)))
                 (wildcard_counts cons))"

section \<open>Sample catalogs\<close>

definition mk_course ::
  "string \<Rightarrow> string \<Rightarrow> string \<Rightarrow> string \<Rightarrow> string option \<Rightarrow> string option \<Rightarrow> int \<Rightarrow> course" where
  "mk_course name sec instr cat d s dur =
     \<lparr>code = ''CS000'', title = name, short_title = name, section_label = sec,
      instructor = instr, instructor_short = instr, credit_hours = 3, category = cat,
      day1 = d, slot1 = s, venue1 = None, day2 = None, slot2 = None, venue2 = None,
      duration_minutes = dur\<rparr>"

definition web_a :: course where
  "web_a = mk_course ''Web Pro'' ''BCS-8A'' ''Ali'' ''CS (Core)'' (Some ''Mon'') (Some ''08:30'') 80"

definition web_b :: course where
  "web_b = mk_course ''Web Pro'' ''BCS-8B'' ''Sara'' ''CS (Core)'' (Some ''Tue'') (Some ''10:00'') 80"

definition ml_a :: course where
  "ml_a = mk_course ''Applied ML'' ''BCS-8A'' ''Omar'' ''CS (Core)'' (Some ''Mon'') (Some ''08:30'') 80"

definition mining :: course where
  "mining =
     mk_course ''Data Mining'' ''BCS-8A'' ''Zed'' ''CS (Elective)'' (Some ''Wed'') (Some ''11:30'') 80"

definition chain :: course where
  "chain =
     mk_course ''Blockchain'' ''BCS-8A'' ''Zed'' ''CS (Elective)'' (Some ''Thu'') (Some ''13:00'') 80"

definition sample_catalog :: "course list" where
  "sample_catalog = [web_a, web_b, ml_a, mining, chain]"

definition sample_constraints :: constraints where
  "sample_constraints =
     \<lparr>excluded_instructors = [], excluded_time_slots = [],
      required_courses = [''Web Pro'', ''Applied ML''],
      wildcard_counts = [(''CS Elective'', 1)], section_preferences = Map.empty,
      batch = ''BCS-2022''\<rparr>"

definition web_c :: course where
  "web_c = mk_course ''Web Pro'' ''BCS-8C'' ''Noor'' ''CS (Core)'' (Some ''Mon'') (Some ''08:30'') 80"

definition twin_catalog :: "course list" where
  "twin_catalog = [web_a, web_c]"

definition twin_constraints :: constraints where
  "twin_constraints =
     \<lparr>excluded_instructors = [], excluded_time_slots = [], required_courses = [''Web Pro''],
      wildcard_counts = [], section_preferences = Map.empty, batch = ''BCS-2022''\<rparr>"

definition project_a :: course where
  "project_a = mk_course ''Project'' ''BCS-8A'' ''TBD'' ''CS (Core)'' None None 80"

definition project_b :: course where
  "project_b = mk_course ''Project'' ''BCS-8B'' ''TBD'' ''CS (Core)'' None None 80"

definition project_catalog :: "course list" where
  "project_catalog = [web_a, project_a, project_b]"

definition project_constraints :: constraints where
  "project_constraints =
     \<lparr>excluded_instructors = [], excluded_time_slots = [],
      required_courses = [''Web Pro'', ''Project''],
      wildcard_counts = [], section_preferences = Map.empty, batch = ''BCS-2022''\<rparr>"

definition ai_lab :: course where
  "ai_lab = mk_course ''AI Lab'' ''BCS-6A'' ''Hina'' ''CS (Core)'' (Some ''Fri'') (Some ''17:30'') 80"

definition late_lab :: course where
  "late_lab = mk_course ''OS Lab'' ''BCS-6A'' ''Hina'' ''CS (Core)'' (Some ''Fri'') (Some ''19:00'') 170"

definition odd_lab :: course where
  "odd_lab = mk_course ''Net Lab'' ''BCS-6A'' ''Hina'' ''CS (Core)'' (Some ''Fri'') (Some ''09:15'') 170"

definition old_web :: course where
  "old_web = mk_course ''Web Pro'' ''BCS-4A'' ''Ali'' ''CS (Core)'' (Some ''Wed'') (Some ''13:00'') 80"

definition old_mining :: course where
  "old_mining =
     mk_course ''Data Mining'' ''BCS-4A'' ''Zed'' ''CS (Elective)'' (Some ''Wed'') (Some ''11:30'') 80"

definition repeat_catalog :: "course list" where
  "repeat_catalog = [old_web, old_mining, web_a, mining]"

definition clash_catalog :: "course list" where
  "clash_catalog = [web_a, ml_a]"

definition clash_constraints :: constraints where
  "clash_constraints =
     \<lparr>excluded_instructors = [''omar''], excluded_time_slots = [''19''],
      required_courses = [''Web Pro'', ''Applied ML''],
      wildcard_counts = [], section_preferences = Map.empty, batch = ''BCS-2022''\<rparr>"

definition relaxed_constraints :: constraints where
  "relaxed_constraints = clash_constraints\<lparr>excluded_instructors := []\<rparr>"

definition pref_constraints :: constraints where
  "pref_constraints =
     \<lparr>excluded_instructors = [], excluded_time_slots = [], required_courses = [''Web Pro''],
      wildcard_counts = [],
      section_preferences = [''Web Pro'' \<mapsto> PrefList [''BCS-8B'', ''BCS-8Z'']],
      batch = ''BCS-2022''\<rparr>"

definition lost_pref_constraints :: constraints where
  "lost_pref_constraints =
     pref_constraints\<lparr>section_preferences := [''Web Pro'' \<mapsto> PrefStr ''BCS-8Z'']\<rparr>"

definition greedy_constraints :: constraints where
  "greedy_constraints = sample_constraints\<lparr>wildcard_counts := [(''CS Elective'', 3)]\<rparr>"

definition missing_constraints :: constraints where
  "missing_constraints =
     \<lparr>excluded_instructors = [], excluded_time_slots = [],
      required_courses = [''Web Pro'', ''Quantum''],
      wildcard_counts = [], section_preferences = Map.empty, batch = ''BCS-2022''\<rparr>"

section \<open>The loops as one pass over the enumeration\<close>

lemma emit_all_Returned [simp]: "emit_all k sels (Returned v) = Returned v"
  by (cases sels) simp_all

lemma emit_all_append: "emit_all k (xs @ ys) st = emit_all k ys (emit_all k xs st)"
proof (induction xs arbitrary: st)
  case Nil
  show ?case by simp
next
  case (Cons x xs)
  show ?case by (cases st) (simp_all add: Cons.IH)
qed

lemma wc_section_loop_Returned [simp]: "wc_section_loop k req combos (Returned v) = Returned v"
  by (cases combos) simp_all

lemma wc_section_loop_emit_all:
  "wc_section_loop k req combos st =
     emit_all k (filter (\<lambda>sel. \<not> has_conflicts sel) (map ((@) req) combos)) st"
proof (induction combos arbitrary: st)
  case Nil
  show ?case by simp
next
  case (Cons c cs)
  show ?case by (cases st) (simp_all add: Cons.IH Let_def)
qed

lemma wildcard_names_loop_Returned [simp]:
  "wildcard_names_loop k req wsbn combos (Returned v) = Returned v"
  by (cases combos) simp_all

text \<open>With no wildcard section list the loop emits the required picks alone, which is
  what the product of no lists gives.\<close>

lemma wildcard_names_loop_emit_all:
  assumes "\<not> has_conflicts req"
  shows "wildcard_names_loop k req wsbn combos st =
     emit_all k (filter (\<lambda>sel. \<not> has_conflicts sel) (candidates_for wsbn combos req)) st"
proof (induction combos arbitrary: st)
  case Nil
  show ?case by (simp add: candidates_for_def)
next
  case (Cons names rest)
  have split: "candidates_for wsbn (names # rest) req =
      map ((@) req) (iter_product (wildcard_section_options wsbn names)) @
      candidates_for wsbn rest req"
    by (simp add: candidates_for_def)
  show ?case
  proof (cases st)
    case (Returned v)
    then show ?thesis by simp
  next
    case (Running v s)
    show ?thesis
    proof (cases "wildcard_section_options wsbn names = []")
      case True
      then show ?thesis using assms Running
        by (simp add: split Cons.IH emit_all_append)
    next
      case False
      then show ?thesis using Running
        by (simp add: split Cons.IH emit_all_append wc_section_loop_emit_all Let_def)
    qed
  qed
qed

lemma list_ex_append_left: "list_ex P xs \<Longrightarrow> list_ex P (xs @ ys)"
  by (induction xs) auto

lemma has_conflicts_append_left: "has_conflicts xs \<Longrightarrow> has_conflicts (xs @ ys)"
  by (induction xs) (auto simp: list_ex_append_left)

text \<open>Skipping a conflicting required combination loses nothing: none of its
  extensions is conflict-free.\<close>

lemma candidates_for_conflict:
  "has_conflicts req \<Longrightarrow>
   filter (\<lambda>sel. \<not> has_conflicts sel) (candidates_for wsbn combos req) = []"
  by (auto simp: candidates_for_def filter_empty_conv has_conflicts_append_left)

lemma req_combo_loop_Returned [simp]:
  "req_combo_loop k wsbn combos reqs (Returned v) = Returned v"
  by (cases reqs) simp_all

lemma req_combo_loop_emit_all:
  "req_combo_loop k wsbn combos reqs st =
     emit_all k (filter (\<lambda>sel. \<not> has_conflicts sel)
                   (concat (map (candidates_for wsbn combos) reqs))) st"
proof (induction reqs arbitrary: st)
  case Nil
  show ?case by simp
next
  case (Cons req rest)
  show ?case
  proof (cases st)
    case (Returned v)
    then show ?thesis by simp
  next
    case (Running v s)
    then show ?thesis
      by (simp add: Cons.IH emit_all_append wildcard_names_loop_emit_all candidates_for_conflict)
  qed
qed

lemma emit_seen:
  "get_slot_pattern sel \<in> seen \<Longrightarrow> emit k sel valid seen = Running valid seen"
  by (simp add: emit_def)

lemma emit_new_return:
  "get_slot_pattern sel \<notin> seen \<Longrightarrow> k \<le> int (length valid) + 1 \<Longrightarrow>
   emit k sel valid seen = Returned (valid @ [sel])"
  by (simp add: emit_def)

lemma emit_new_running:
  "get_slot_pattern sel \<notin> seen \<Longrightarrow> \<not> k \<le> int (length valid) + 1 \<Longrightarrow>
   emit k sel valid seen = Running (valid @ [sel]) (insert (get_slot_pattern sel) seen)"
  by (simp add: emit_def)

lemma take_snoc_exact: "n = Suc (length xs) \<Longrightarrow> take n (xs @ y # ys) = xs @ [y]"
  by simp

text \<open>
  The cap is tested after an append only, so the pass stops at \<open>max_results\<close> selections
  when \<open>max_results\<close> is positive and at one selection otherwise.
\<close>

lemma emit_all_take:
  assumes "valid = [] \<or> int (length valid) < k"
  shows "timetables_of (emit_all k sels (Running valid seen)) =
           take (nat (max k 1)) (valid @ first_per_pattern sels seen)"
  using assms
proof (induction sels arbitrary: valid seen)
  case Nil
  then show ?case by auto
next
  case (Cons sel rest)
  show ?case
  proof (cases "get_slot_pattern sel \<in> seen")
    case True
    then show ?thesis using Cons by (simp add: emit_seen)
  next
    case False
    show ?thesis
    proof (cases "k \<le> int (length valid) + 1")
      case True
      have n: "nat (max k 1) = Suc (length valid)" using True Cons.prems by auto
      have "timetables_of (emit_all k (sel # rest) (Running valid seen)) = valid @ [sel]"
        using False True by (simp add: emit_new_return)
      moreover have
        "take (nat (max k 1)) (valid @ first_per_pattern (sel # rest) seen) = valid @ [sel]"
      proof -
        have "first_per_pattern (sel # rest) seen =
                sel # first_per_pattern rest (insert (get_slot_pattern sel) seen)"
          using False by simp
        then show ?thesis using take_snoc_exact [OF n] by (simp only:)
      qed
      ultimately show ?thesis by simp
    next
      case False2: False
      have "timetables_of
              (emit_all k rest (Running (valid @ [sel]) (insert (get_slot_pattern sel) seen))) =
            take (nat (max k 1))
              ((valid @ [sel]) @ first_per_pattern rest (insert (get_slot_pattern sel) seen))"
        by (rule Cons.IH) (use False2 in auto)
      then show ?thesis using False False2 by (simp add: emit_new_running)
    qed
  qed
qed

lemma generate_timetables_enumeration:
  "generate_timetables courses cons k =
     take (nat (max k 1)) (first_per_pattern (enumeration courses cons) {})"
proof (cases "required_options courses cons = []")
  case True
  then show ?thesis by (simp add: generate_timetables_def enumeration_def)
next
  case False
  then show ?thesis
    by (simp add: generate_timetables_def enumeration_def candidates_def Let_def
        req_combo_loop_emit_all emit_all_take)
qed

section \<open>Deduplication and conflicts\<close>

lemma first_per_pattern_subset: "set (first_per_pattern xs seen) \<subseteq> set xs"
  by (induction xs arbitrary: seen) auto

lemma first_per_pattern_unseen:
  "sel \<in> set (first_per_pattern xs seen) \<Longrightarrow> get_slot_pattern sel \<notin> seen"
  by (induction xs arbitrary: seen) (auto split: if_splits)

lemma first_per_pattern_distinct: "distinct (map get_slot_pattern (first_per_pattern xs seen))"
proof (induction xs arbitrary: seen)
  case Nil
  show ?case by simp
next
  case (Cons x xs)
  show ?case
  proof (cases "get_slot_pattern x \<in> seen")
    case True
    then show ?thesis using Cons.IH by simp
  next
    case False
    have "get_slot_pattern x \<notin> get_slot_pattern ` set (first_per_pattern xs (insert (get_slot_pattern x) seen))"
    proof
      assume "get_slot_pattern x \<in> get_slot_pattern ` set (first_per_pattern xs (insert (get_slot_pattern x) seen))"
      then obtain y where y: "y \<in> set (first_per_pattern xs (insert (get_slot_pattern x) seen))"
        "get_slot_pattern y = get_slot_pattern x" by auto
      from first_per_pattern_unseen [OF y(1)] y(2) show False by simp
    qed
    then show ?thesis using False Cons.IH by simp
  qed
qed

lemma first_per_pattern_first:
  "sel \<in> set (first_per_pattern xs seen) \<Longrightarrow>
   \<exists>i < length xs. xs ! i = sel \<and> (\<forall>j < i. get_slot_pattern (xs ! j) \<noteq> get_slot_pattern sel)"
proof (induction xs arbitrary: seen)
  case Nil
  then show ?case by simp
next
  case (Cons x xs)
  show ?case
  proof (cases "sel = x \<and> get_slot_pattern x \<notin> seen")
    case True
    then show ?thesis by auto
  next
    case False
    define seen' where "seen' = (if get_slot_pattern x \<in> seen then seen else insert (get_slot_pattern x) seen)"
    have mem: "sel \<in> set (first_per_pattern xs seen')"
      using Cons.prems False by (auto simp: seen'_def split: if_splits)
    from Cons.IH [OF mem] obtain i where i: "i < length xs" "xs ! i = sel"
      "\<forall>j < i. get_slot_pattern (xs ! j) \<noteq> get_slot_pattern sel" by blast
    have "get_slot_pattern sel \<notin> seen'" using mem by (rule first_per_pattern_unseen)
    moreover have "get_slot_pattern x \<in> seen'" by (simp add: seen'_def)
    ultimately have ne: "get_slot_pattern x \<noteq> get_slot_pattern sel" by auto
    have "\<forall>j < Suc i. get_slot_pattern ((x # xs) ! j) \<noteq> get_slot_pattern sel"
      using i(3) ne by (auto simp: less_Suc_eq_0_disj)
    then show ?thesis using i(1,2) by (intro exI [of _ "Suc i"]) simp
  qed
qed

lemma enumeration_conflict_free: "sel \<in> set (enumeration courses cons) \<Longrightarrow> \<not> has_conflicts sel"
  by (auto simp: enumeration_def split: if_splits)

lemma generate_timetables_subset:
  "set (generate_timetables courses cons k) \<subseteq> set (enumeration courses cons)"
  unfolding generate_timetables_enumeration
  using set_take_subset first_per_pattern_subset by fast

lemma conflicts_with_slot_pairs: "conflicts_with a b \<longleftrightarrow> slot_pairs a \<inter> slot_pairs b \<noteq> {}"
proof
  assume "conflicts_with a b"
  then obtain x y where xy: "x \<in> set (get_time_slots a)" "y \<in> set (get_time_slots b)"
    "fst x = fst y" "fst (snd x) = fst (snd y)"
    unfolding conflicts_with_def list_ex_iff by (auto simp: case_prod_beta)
  have "(fst x, fst (snd x)) \<in> slot_pairs a" using xy(1)
    unfolding slot_pairs_def by (force simp: case_prod_beta)
  moreover have "(fst x, fst (snd x)) \<in> slot_pairs b" using xy(2-4)
    unfolding slot_pairs_def by (force simp: case_prod_beta)
  ultimately show "slot_pairs a \<inter> slot_pairs b \<noteq> {}" by blast
next
  assume "slot_pairs a \<inter> slot_pairs b \<noteq> {}"
  then obtain p where "p \<in> slot_pairs a" "p \<in> slot_pairs b" by blast
  then obtain x y where "x \<in> set (get_time_slots a)" "y \<in> set (get_time_slots b)"
    "p = (fst x, fst (snd x))" "p = (fst y, fst (snd y))"
    unfolding slot_pairs_def by (auto simp: case_prod_beta)
  then show "conflicts_with a b"
    unfolding conflicts_with_def list_ex_iff by (force simp: case_prod_beta)
qed

lemma has_conflicts_nth:
  "has_conflicts cs \<longleftrightarrow> (\<exists>i j. i < j \<and> j < length cs \<and> conflicts_with (cs ! i) (cs ! j))"
proof (induction cs)
  case Nil
  show ?case by simp
next
  case (Cons c cs)
  have "(\<exists>i j. i < j \<and> j < length (c # cs) \<and> conflicts_with ((c # cs) ! i) ((c # cs) ! j))
      \<longleftrightarrow> (\<exists>j < length cs. conflicts_with c (cs ! j)) \<or>
          (\<exists>i j. i < j \<and> j < length cs \<and> conflicts_with (cs ! i) (cs ! j))" (is "?L \<longleftrightarrow> ?A \<or> ?B")
  proof
    assume ?L
    then obtain i j where ij: "i < j" "j < length (c # cs)"
      "conflicts_with ((c # cs) ! i) ((c # cs) ! j)" by blast
    from ij(1) obtain j' where j': "j = Suc j'" by (cases j) auto
    show "?A \<or> ?B"
    proof (cases i)
      case 0
      then show ?thesis using ij j' by auto
    next
      case (Suc i')
      then have "i' < j' \<and> j' < length cs \<and> conflicts_with (cs ! i') (cs ! j')"
        using ij j' by auto
      then show ?thesis by blast
    qed
  next
    assume "?A \<or> ?B"
    then show ?L
    proof
      assume ?A
      then obtain j where "j < length cs" "conflicts_with c (cs ! j)" by blast
      then have "0 < Suc j \<and> Suc j < length (c # cs) \<and>
                 conflicts_with ((c # cs) ! 0) ((c # cs) ! Suc j)" by simp
      then show ?L by blast
    next
      assume ?B
      then obtain i j where "i < j" "j < length cs" "conflicts_with (cs ! i) (cs ! j)" by blast
      then have "Suc i < Suc j \<and> Suc j < length (c # cs) \<and>
                 conflicts_with ((c # cs) ! Suc i) ((c # cs) ! Suc j)" by simp
      then show ?L by blast
    qed
  qed
  moreover have "list_ex (conflicts_with c) cs \<longleftrightarrow> ?A"
  proof
    assume "list_ex (conflicts_with c) cs"
    then obtain x where "x \<in> set cs" "conflicts_with c x" unfolding list_ex_iff by blast
    then show ?A by (auto simp: in_set_conv_nth)
  next
    assume ?A
    then show "list_ex (conflicts_with c) cs" unfolding list_ex_iff using nth_mem by blast
  qed
  ultimately show ?case using Cons.IH by simp
qed

section \<open>Properties of the generator\<close>

text \<open>
  C1. Every selection in the list returned by \<open>generate_timetables\<close> is conflict-free:
  \<open>_has_conflicts\<close> is false for it, and no two of its offerings, at different positions,
  share an occupied (day, slotStart) pair of \<open>get_time_slots\<close> (lab extension slots
  included). This holds for every catalog, every constraints value and every cap.
\<close>

theorem generated_selections_conflict_free:
  assumes "sel \<in> set (generate_timetables courses cons max_results)"
  shows "\<not> has_conflicts sel \<and>
         (\<forall>i j. i < j \<and> j < length sel \<longrightarrow> slot_pairs (sel ! i) \<inter> slot_pairs (sel ! j) = {})"
proof -
  have nc: "\<not> has_conflicts sel"
    using assms generate_timetables_subset enumeration_conflict_free by blast
  then show ?thesis
    unfolding has_conflicts_nth conflicts_with_slot_pairs by blast
qed

theorem generated_selections_conflict_free_witness:
  "[web_b, ml_a, mining] \<in> set (generate_timetables sample_catalog sample_constraints 10) \<and>
   \<not> has_conflicts [web_b, ml_a, mining] \<and>
   slot_pairs web_b \<inter> slot_pairs ml_a = {}"
proof -
  have mem: "[web_b, ml_a, mining] \<in> set (generate_timetables sample_catalog sample_constraints 10)"
    by code_simp
  from generated_selections_conflict_free [OF mem]
  have "\<not> has_conflicts [web_b, ml_a, mining]" and
    "(0::nat) < 1 \<and> 1 < length [web_b, ml_a, mining] \<longrightarrow>
       slot_pairs ([web_b, ml_a, mining] ! 0) \<inter> slot_pairs ([web_b, ml_a, mining] ! 1) = {}"
    by blast+
  with mem show ?thesis by simp
qed

text \<open>
  C2, as amended. The returned list has at most \<open>max_results\<close> selections when
  \<open>max_results\<close> is at least 1. The cap is tested only after a selection has been
  appended, so a call with \<open>max_results = 0\<close> (or a negative cap) returns the first
  emitted selection: its result has at most one selection and need not be empty.
\<close>

theorem cap_bounds_result_length:
  "length (generate_timetables courses cons max_results) \<le> nat (max max_results 1)"
  by (simp add: generate_timetables_enumeration)

text \<open>The sample request with \<open>max_results = 0\<close> returns one selection.\<close>

theorem cap_zero_counterexample:
  "length (generate_timetables sample_catalog sample_constraints 0) = 1"
  by code_simp

lemma generate_timetables_distinct:
  "distinct (map get_slot_pattern (generate_timetables courses cons k))"
  unfolding generate_timetables_enumeration take_map [symmetric]
  by (rule distinct_take) (rule first_per_pattern_distinct)

lemma generate_timetables_first:
  assumes "sel \<in> set (generate_timetables courses cons k)"
  shows "\<exists>i < length (enumeration courses cons). enumeration courses cons ! i = sel \<and>
           (\<forall>j < i. get_slot_pattern (enumeration courses cons ! j) \<noteq> get_slot_pattern sel)"
proof -
  have "sel \<in> set (first_per_pattern (enumeration courses cons) {})"
    using assms set_take_subset unfolding generate_timetables_enumeration by fast
  then show ?thesis by (rule first_per_pattern_first)
qed

text \<open>
  C4. Within one call the emitted selections have pairwise distinct slot signatures (the
  sorted \<open>day_time\<close> strings of \<open>_get_slot_pattern\<close>), and each emitted selection is the
  first one with its signature in the enumeration order of the conflict-free selections.
\<close>

theorem one_selection_per_signature:
  "distinct (map get_slot_pattern (generate_timetables courses cons max_results)) \<and>
   (\<forall>sel \<in> set (generate_timetables courses cons max_results).
      \<exists>i < length (enumeration courses cons).
        enumeration courses cons ! i = sel \<and>
        (\<forall>j < i. get_slot_pattern (enumeration courses cons ! j) \<noteq> get_slot_pattern sel))"
  using generate_timetables_distinct generate_timetables_first by blast

theorem one_selection_per_signature_witness:
  "enumeration twin_catalog twin_constraints = [[web_a], [web_c]] \<and>
   get_slot_pattern [web_a] = get_slot_pattern [web_c] \<and>
   generate_timetables twin_catalog twin_constraints 10 = [[web_a]] \<and>
   distinct (map get_slot_pattern (generate_timetables twin_catalog twin_constraints 10)) \<and>
   (\<exists>i < length (enumeration twin_catalog twin_constraints).
      enumeration twin_catalog twin_constraints ! i = [web_a] \<and>
      (\<forall>j < i. get_slot_pattern (enumeration twin_catalog twin_constraints ! j) \<noteq>
                 get_slot_pattern [web_a]))"
proof -
  have e: "enumeration twin_catalog twin_constraints = [[web_a], [web_c]]" by code_simp
  have p: "get_slot_pattern [web_a] = get_slot_pattern [web_c]" by code_simp
  have g: "generate_timetables twin_catalog twin_constraints 10 = [[web_a]]" by code_simp
  have mem: "[web_a] \<in> set (generate_timetables twin_catalog twin_constraints 10)"
    by (simp add: g)
  from one_selection_per_signature [of twin_catalog twin_constraints 10] mem
  have "distinct (map get_slot_pattern (generate_timetables twin_catalog twin_constraints 10))"
    and "\<exists>i < length (enumeration twin_catalog twin_constraints).
      enumeration twin_catalog twin_constraints ! i = [web_a] \<and>
      (\<forall>j < i. get_slot_pattern (enumeration twin_catalog twin_constraints ! j) \<noteq>
                 get_slot_pattern [web_a])"
    by blast+
  with e p g show ?thesis by blast
qed

section \<open>Offerings, labs and the time grid\<close>

lemma contains_sublist: "contains a b \<longleftrightarrow> sublist a b"
  by (induction b) (auto simp: sublist_Cons_right)

lemma no_meeting_slots: "\<not> has_meeting c \<Longrightarrow> get_time_slots c = []"
  by (auto simp: has_meeting_def get_time_slots_def meeting_slots_def)

lemma get_slot_pattern_filter:
  "get_slot_pattern (filter has_meeting sel) = get_slot_pattern sel"
proof -
  have "concat (map slot_strings (filter has_meeting sel)) = concat (map slot_strings sel)"
    by (induction sel) (auto simp: slot_strings_def no_meeting_slots)
  then show ?thesis by (simp add: get_slot_pattern_def)
qed

lemma generate_timetables_same_pattern:
  assumes "s1 \<in> set (generate_timetables courses cons k)"
    and "s2 \<in> set (generate_timetables courses cons k)"
    and "get_slot_pattern s1 = get_slot_pattern s2"
  shows "s1 = s2"
  using generate_timetables_distinct [of courses cons k] assms
  by (meson distinct_map inj_on_eq_iff)

text \<open>
  C10. An offering without meeting data (neither its first nor its second (day, slot)
  pair is present) has no time slots; it conflicts with no offering, in either argument
  order; it adds nothing to a slot pattern; two selections that are equal once such
  offerings are left out have the same pattern, and one call never returns both.
\<close>

theorem offering_without_meetings:
  assumes "\<not> has_meeting c"
  shows "get_time_slots c = [] \<and>
         \<not> conflicts_with c other \<and> \<not> conflicts_with other c \<and>
         get_slot_pattern (xs @ c # ys) = get_slot_pattern (xs @ ys) \<and>
         (filter has_meeting s1 = filter has_meeting s2 \<longrightarrow>
            get_slot_pattern s1 = get_slot_pattern s2 \<and>
            (s1 \<in> set (generate_timetables courses cons max_results) \<and>
             s2 \<in> set (generate_timetables courses cons max_results) \<longrightarrow> s1 = s2))"
proof -
  have slots: "get_time_slots c = []" using assms by (rule no_meeting_slots)
  have c1: "\<not> conflicts_with c other" and c2: "\<not> conflicts_with other c"
    by (simp_all add: conflicts_with_def slots list_ex_iff)
  have pat: "get_slot_pattern (xs @ c # ys) = get_slot_pattern (xs @ ys)"
    by (simp add: get_slot_pattern_def slot_strings_def slots)
  have eq: "get_slot_pattern s1 = get_slot_pattern s2"
    if "filter has_meeting s1 = filter has_meeting s2"
    using that get_slot_pattern_filter [of s1] get_slot_pattern_filter [of s2] by simp
  show ?thesis using slots c1 c2 pat eq generate_timetables_same_pattern by blast
qed

theorem offering_without_meetings_witness:
  "\<not> has_meeting project_a \<and>
   get_time_slots project_a = [] \<and>
   \<not> conflicts_with project_a web_a \<and> \<not> conflicts_with web_a project_a \<and>
   get_slot_pattern ([web_a] @ project_a # []) = get_slot_pattern ([web_a] @ []) \<and>
   filter has_meeting [web_a, project_a] = filter has_meeting [web_a, project_b] \<and>
   get_slot_pattern [web_a, project_a] = get_slot_pattern [web_a, project_b] \<and>
   enumeration project_catalog project_constraints = [[web_a, project_a], [web_a, project_b]] \<and>
   generate_timetables project_catalog project_constraints 10 = [[web_a, project_a]]"
proof -
  have h: "\<not> has_meeting project_a" by code_simp
  have f: "filter has_meeting [web_a, project_a] = filter has_meeting [web_a, project_b]"
    by code_simp
  have e: "enumeration project_catalog project_constraints =
             [[web_a, project_a], [web_a, project_b]]" by code_simp
  have g: "generate_timetables project_catalog project_constraints 10 = [[web_a, project_a]]"
    by code_simp
  from offering_without_meetings [OF h, of web_a "[web_a]" "[]" "[web_a, project_a]"
      "[web_a, project_b]" project_catalog project_constraints 10] f
  have "get_time_slots project_a = []" "\<not> conflicts_with project_a web_a"
    "\<not> conflicts_with web_a project_a"
    "get_slot_pattern ([web_a] @ project_a # []) = get_slot_pattern ([web_a] @ [])"
    "get_slot_pattern [web_a, project_a] = get_slot_pattern [web_a, project_b]"
    by blast+
  with h f e g show ?thesis by blast
qed

lemma get_next_slot_cases:
  "get_next_slot s =
     (if s = ''08:30'' then Some ''10:00'' else if s = ''10:00'' then Some ''11:30''
      else if s = ''11:30'' then Some ''13:00'' else if s = ''13:00'' then Some ''14:30''
      else if s = ''14:30'' then Some ''16:00'' else if s = ''16:00'' then Some ''17:30''
      else if s = ''17:30'' then Some ''19:00'' else None)"
  by (simp add: get_next_slot_def TIME_SLOT_ORDER_def)

lemma get_next_slot_grid:
  assumes "i + 1 < length TIME_SLOT_ORDER"
  shows "get_next_slot (TIME_SLOT_ORDER ! i) = Some (TIME_SLOT_ORDER ! (i + 1))"
proof -
  have "i < 7" using assms by (simp add: TIME_SLOT_ORDER_def)
  then consider "i = 0" | "i = 1" | "i = 2" | "i = 3" | "i = 4" | "i = 5" | "i = 6" by linarith
  then show ?thesis
    by cases (simp_all add: get_next_slot_cases TIME_SLOT_ORDER_def)
qed

lemma get_next_slot_off_grid: "s \<notin> set TIME_SLOT_ORDER \<Longrightarrow> get_next_slot s = None"
  by (simp add: get_next_slot_cases TIME_SLOT_ORDER_def)

lemma get_next_slot_last: "get_next_slot (last TIME_SLOT_ORDER) = None"
  by (simp add: get_next_slot_cases TIME_SLOT_ORDER_def)

lemma get_next_slot_nonempty: "get_next_slot s = Some n \<Longrightarrow> n \<noteq> []"
  by (auto simp: get_next_slot_cases split: if_splits)

lemma get_next_slot_Some_iff:
  "get_next_slot s \<noteq> None \<longleftrightarrow> s \<in> set (butlast TIME_SLOT_ORDER)"
  by (simp add: get_next_slot_cases TIME_SLOT_ORDER_def)

text \<open>
  C7. \<open>is_lab\<close> holds exactly when the duration exceeds 100 or the title contains
  \<open>Lab\<close>. The grid has eight entries. \<open>get_time_slots\<close> is the slots of the first meeting
  followed by those of the second; a meeting that is not present gives none; a present
  meeting gives its triple, followed by the triple of the next grid entry exactly when the
  offering is a lab and the slot is one of the first seven grid entries. At the last grid
  entry, and off the grid, nothing is added.
\<close>

theorem lab_and_time_slots:
  "is_lab c = (duration_minutes c > 100 \<or> sublist ''Lab'' (title c)) \<and>
   length TIME_SLOT_ORDER = 8 \<and>
   get_time_slots c =
     meeting_slots c (day1 c) (slot1 c) (venue1 c) @ meeting_slots c (day2 c) (slot2 c) (venue2 c) \<and>
   (\<not> (truthy day \<and> truthy slot) \<longrightarrow> meeting_slots c day slot venue = []) \<and>
   (truthy day \<and> truthy slot \<and> (\<not> is_lab c \<or> the_str slot \<notin> set (butlast TIME_SLOT_ORDER)) \<longrightarrow>
      meeting_slots c day slot venue = [(the_str day, the_str slot, or_default venue ''TBD'')]) \<and>
   (truthy day \<and> truthy slot \<and> is_lab c \<and> i + 1 < length TIME_SLOT_ORDER \<and>
    the_str slot = TIME_SLOT_ORDER ! i \<longrightarrow>
      meeting_slots c day slot venue =
        [(the_str day, the_str slot, or_default venue ''TBD''),
         (the_str day, TIME_SLOT_ORDER ! (i + 1), or_default venue ''TBD'')])"
proof -
  have lab: "is_lab c = (duration_minutes c > 100 \<or> sublist ''Lab'' (title c))"
    by (simp add: is_lab_def contains_sublist)
  have len: "length TIME_SLOT_ORDER = 8" by (simp add: TIME_SLOT_ORDER_def)
  have none: "meeting_slots c day slot venue = []" if "\<not> (truthy day \<and> truthy slot)"
    using that by (simp add: meeting_slots_def)
  have base: "meeting_slots c day slot venue = [(the_str day, the_str slot, or_default venue ''TBD'')]"
    if "truthy day \<and> truthy slot" "\<not> is_lab c \<or> the_str slot \<notin> set (butlast TIME_SLOT_ORDER)"
  proof (cases "is_lab c")
    case False
    then show ?thesis using that(1) by (simp add: meeting_slots_def)
  next
    case True
    then have "get_next_slot (the_str slot) = None"
      using that(2) get_next_slot_Some_iff by blast
    then show ?thesis using that(1) by (simp add: meeting_slots_def)
  qed
  have ext: "meeting_slots c day slot venue =
        [(the_str day, the_str slot, or_default venue ''TBD''),
         (the_str day, TIME_SLOT_ORDER ! (i + 1), or_default venue ''TBD'')]"
    if "truthy day \<and> truthy slot" "is_lab c" "i + 1 < length TIME_SLOT_ORDER"
      "the_str slot = TIME_SLOT_ORDER ! i"
  proof -
    have n: "get_next_slot (the_str slot) = Some (TIME_SLOT_ORDER ! (i + 1))"
      using that(3,4) get_next_slot_grid by simp
    then have "TIME_SLOT_ORDER ! (i + 1) \<noteq> []" by (rule get_next_slot_nonempty)
    then show ?thesis using that(1,2) n by (simp add: meeting_slots_def)
  qed
  show ?thesis using lab len none base ext by (simp add: get_time_slots_def)
qed

theorem lab_and_time_slots_witness:
  "is_lab ai_lab \<and> is_lab late_lab \<and>
   get_time_slots ai_lab = [(''Fri'', ''17:30'', ''TBD''), (''Fri'', ''19:00'', ''TBD'')] \<and>
   get_time_slots late_lab = [(''Fri'', ''19:00'', ''TBD'')]"
proof -
  have a: "truthy (day1 ai_lab) \<and> truthy (slot1 ai_lab) \<and> is_lab ai_lab \<and>
           6 + 1 < length TIME_SLOT_ORDER \<and> the_str (slot1 ai_lab) = TIME_SLOT_ORDER ! 6"
    by code_simp
  have a2: "\<not> (truthy (day2 ai_lab) \<and> truthy (slot2 ai_lab))" by code_simp
  have l: "truthy (day1 late_lab) \<and> truthy (slot1 late_lab) \<and>
           (\<not> is_lab late_lab \<or> the_str (slot1 late_lab) \<notin> set (butlast TIME_SLOT_ORDER))"
    by code_simp
  have l2: "\<not> (truthy (day2 late_lab) \<and> truthy (slot2 late_lab))" by code_simp
  have labs: "is_lab ai_lab \<and> is_lab late_lab" by code_simp
  have va: "[(the_str (day1 ai_lab), the_str (slot1 ai_lab), or_default (venue1 ai_lab) ''TBD''),
             (the_str (day1 ai_lab), TIME_SLOT_ORDER ! (6 + 1), or_default (venue1 ai_lab) ''TBD'')] @ [] =
            [(''Fri'', ''17:30'', ''TBD''), (''Fri'', ''19:00'', ''TBD'')]"
    by code_simp
  have vl: "[(the_str (day1 late_lab), the_str (slot1 late_lab),
              or_default (venue1 late_lab) ''TBD'')] @ [] = [(''Fri'', ''19:00'', ''TBD'')]"
    by code_simp
  have a_first: "meeting_slots ai_lab (day1 ai_lab) (slot1 ai_lab) (venue1 ai_lab) =
      [(the_str (day1 ai_lab), the_str (slot1 ai_lab), or_default (venue1 ai_lab) ''TBD''),
       (the_str (day1 ai_lab), TIME_SLOT_ORDER ! (6 + 1), or_default (venue1 ai_lab) ''TBD'')]"
    using lab_and_time_slots [of ai_lab "day1 ai_lab" "slot1 ai_lab" "venue1 ai_lab" 6] a
    by blast
  have a_second: "meeting_slots ai_lab (day2 ai_lab) (slot2 ai_lab) (venue2 ai_lab) = []"
    using lab_and_time_slots [of ai_lab "day2 ai_lab" "slot2 ai_lab" "venue2 ai_lab" 0] a2
    by blast
  have a_all: "get_time_slots ai_lab =
      meeting_slots ai_lab (day1 ai_lab) (slot1 ai_lab) (venue1 ai_lab) @
      meeting_slots ai_lab (day2 ai_lab) (slot2 ai_lab) (venue2 ai_lab)"
    using lab_and_time_slots [of ai_lab] by blast
  have l_first: "meeting_slots late_lab (day1 late_lab) (slot1 late_lab) (venue1 late_lab) =
      [(the_str (day1 late_lab), the_str (slot1 late_lab), or_default (venue1 late_lab) ''TBD'')]"
    using lab_and_time_slots [of late_lab "day1 late_lab" "slot1 late_lab" "venue1 late_lab" 0] l
    by blast
  have l_second: "meeting_slots late_lab (day2 late_lab) (slot2 late_lab) (venue2 late_lab) = []"
    using lab_and_time_slots [of late_lab "day2 late_lab" "slot2 late_lab" "venue2 late_lab" 0] l2
    by blast
  have l_all: "get_time_slots late_lab =
      meeting_slots late_lab (day1 late_lab) (slot1 late_lab) (venue1 late_lab) @
      meeting_slots late_lab (day2 late_lab) (slot2 late_lab) (venue2 late_lab)"
    using lab_and_time_slots [of late_lab] by blast
  have t1: "get_time_slots ai_lab = [(''Fri'', ''17:30'', ''TBD''), (''Fri'', ''19:00'', ''TBD'')]"
    unfolding a_all a_first a_second by (rule va)
  have t2: "get_time_slots late_lab = [(''Fri'', ''19:00'', ''TBD'')]"
    unfolding l_all l_first l_second by (rule vl)
  show ?thesis using labs t1 t2 by blast
qed

text \<open>
  C9. For a slot string that is not one of the eight grid entries \<open>_get_next_slot\<close>
  returns \<open>None\<close> (the \<open>ValueError\<close> of \<open>index\<close> is caught), so a meeting stored with such a
  slot gives only its base triple, for a lab too.
\<close>

theorem next_slot_total_off_grid:
  assumes "slot \<notin> set TIME_SLOT_ORDER"
  shows "get_next_slot slot = None \<and>
         (truthy day \<and> slot \<noteq> [] \<longrightarrow>
            meeting_slots c day (Some slot) venue = [(the_str day, slot, or_default venue ''TBD'')]) \<and>
         (truthy (day1 c) \<and> slot1 c = Some slot \<and> slot \<noteq> [] \<and>
          \<not> (truthy (day2 c) \<and> truthy (slot2 c)) \<longrightarrow>
            get_time_slots c = [(the_str (day1 c), slot, or_default (venue1 c) ''TBD'')])"
proof -
  have n: "get_next_slot slot = None" using assms by (rule get_next_slot_off_grid)
  have m: "meeting_slots c d (Some slot) v = [(the_str d, slot, or_default v ''TBD'')]"
    if "truthy d" "slot \<noteq> []" for d v
    using that n by (simp add: meeting_slots_def)
  have "get_time_slots c = [(the_str (day1 c), slot, or_default (venue1 c) ''TBD'')]"
    if "truthy (day1 c)" "slot1 c = Some slot" "slot \<noteq> []" "\<not> (truthy (day2 c) \<and> truthy (slot2 c))"
  proof -
    have "meeting_slots c (day2 c) (slot2 c) (venue2 c) = []"
      using that(4) by (simp add: meeting_slots_def)
    then show ?thesis using m [OF that(1,3), of "venue1 c"] that(2)
      by (simp add: get_time_slots_def)
  qed
  then show ?thesis using n m by blast
qed

theorem next_slot_total_off_grid_witness:
  "''09:15'' \<notin> set TIME_SLOT_ORDER \<and> is_lab odd_lab \<and> slot1 odd_lab = Some ''09:15'' \<and>
   get_next_slot ''09:15'' = None \<and>
   get_time_slots odd_lab = [(''Fri'', ''09:15'', ''TBD'')]"
proof -
  have h: "''09:15'' \<notin> set TIME_SLOT_ORDER" by code_simp
  have p: "truthy (day1 odd_lab) \<and> slot1 odd_lab = Some ''09:15'' \<and> ''09:15'' \<noteq> [] \<and>
           \<not> (truthy (day2 odd_lab) \<and> truthy (slot2 odd_lab))" by code_simp
  have v: "is_lab odd_lab \<and> the_str (day1 odd_lab) = ''Fri'' \<and>
           or_default (venue1 odd_lab) ''TBD'' = ''TBD''" by code_simp
  from next_slot_total_off_grid [OF h, of "day1 odd_lab" odd_lab "venue1 odd_lab"] p v
  have "get_next_slot ''09:15'' = None \<and>
        get_time_slots odd_lab = [(''Fri'', ''09:15'', ''TBD'')]" by simp
  with h p v show ?thesis by blast
qed

section \<open>Properties of the constraint filter\<close>

lemma filter_courses_iff:
  "c \<in> set (filter_courses courses cons) \<longleftrightarrow>
     c \<in> set courses \<and> prefix ''BCS-'' (section_label c) \<and>
     (short_title c \<in> set (required_courses cons) \<or>
      prefix (get_semester_prefix cons) (section_label c)) \<and>
     \<not> instructor_excluded cons c \<and> \<not> slot_excluded cons c"
  by (induction courses) (auto simp: Let_def)

lemma instructor_excluded_batch [simp]:
  "instructor_excluded (cons\<lparr>batch := b\<rparr>) c = instructor_excluded cons c"
  by (simp add: instructor_excluded_def)

lemma slot_excluded_batch [simp]:
  "slot_excluded (cons\<lparr>batch := b\<rparr>) c = slot_excluded cons c"
  by (simp add: slot_excluded_def)

lemma instructor_excluded_mono:
  "set (excluded_instructors cons') \<subseteq> set (excluded_instructors cons) \<Longrightarrow>
   instructor_excluded cons' c \<Longrightarrow> instructor_excluded cons c"
  unfolding instructor_excluded_def list_ex_iff by auto

lemma slot_excluded_mono:
  "set (excluded_time_slots cons') \<subseteq> set (excluded_time_slots cons) \<Longrightarrow>
   slot_excluded cons' c \<Longrightarrow> slot_excluded cons c"
  unfolding slot_excluded_def list_ex_iff by auto

text \<open>
  C5. A catalog offering whose short title is required and whose section starts with
  \<open>BCS-\<close> is kept by \<open>filter_courses\<close> whatever its semester prefix, unless an instructor
  or time-slot exclusion drops it; whether a required offering is kept does not depend on
  the batch at all. A non-required offering whose section does not start with the prefix
  of the batch is always dropped.
\<close>

theorem required_exempt_from_batch_scope:
  "(c \<in> set courses \<and> short_title c \<in> set (required_courses cons) \<and>
    prefix ''BCS-'' (section_label c) \<and> \<not> instructor_excluded cons c \<and> \<not> slot_excluded cons c
      \<longrightarrow> c \<in> set (filter_courses courses cons)) \<and>
   (short_title c \<in> set (required_courses cons) \<longrightarrow>
      (c \<in> set (filter_courses courses (cons\<lparr>batch := b\<rparr>))) =
      (c \<in> set (filter_courses courses cons))) \<and>
   (short_title c \<notin> set (required_courses cons) \<and>
    \<not> prefix (get_semester_prefix cons) (section_label c)
      \<longrightarrow> c \<notin> set (filter_courses courses cons))"
  by (simp add: filter_courses_iff)

theorem required_exempt_from_batch_scope_witness:
  "get_semester_prefix sample_constraints = ''BCS-8'' \<and>
   section_label old_web = ''BCS-4A'' \<and> section_label old_mining = ''BCS-4A'' \<and>
   short_title old_web \<in> set (required_courses sample_constraints) \<and>
   short_title old_mining \<notin> set (required_courses sample_constraints) \<and>
   old_web \<in> set (filter_courses repeat_catalog sample_constraints) \<and>
   old_web \<in> set (filter_courses repeat_catalog (sample_constraints\<lparr>batch := ''BCS-2025''\<rparr>)) \<and>
   old_mining \<notin> set (filter_courses repeat_catalog sample_constraints)"
proof -
  have facts: "get_semester_prefix sample_constraints = ''BCS-8'' \<and>
     section_label old_web = ''BCS-4A'' \<and> section_label old_mining = ''BCS-4A''"
    by code_simp
  have req: "old_web \<in> set repeat_catalog \<and>
      short_title old_web \<in> set (required_courses sample_constraints) \<and>
      prefix ''BCS-'' (section_label old_web) \<and> \<not> instructor_excluded sample_constraints old_web \<and>
      \<not> slot_excluded sample_constraints old_web"
    by code_simp
  have non: "short_title old_mining \<notin> set (required_courses sample_constraints) \<and>
      \<not> prefix (get_semester_prefix sample_constraints) (section_label old_mining)"
    by code_simp
  have k1: "old_web \<in> set (filter_courses repeat_catalog sample_constraints)"
    using required_exempt_from_batch_scope [of old_web repeat_catalog sample_constraints] req
    by blast
  have k2: "old_web \<in> set (filter_courses repeat_catalog (sample_constraints\<lparr>batch := ''BCS-2025''\<rparr>))"
    using required_exempt_from_batch_scope
      [of old_web repeat_catalog sample_constraints "''BCS-2025''"] req k1
    by blast
  have k3: "old_mining \<notin> set (filter_courses repeat_catalog sample_constraints)"
    using required_exempt_from_batch_scope [of old_mining repeat_catalog sample_constraints] non
    by blast
  show ?thesis using facts req non k1 k2 k3 by blast
qed

text \<open>
  C6, as amended. The filter is monotonic in the exclusion lists: with the required
  courses and the batch fixed, every offering that \<open>filter_courses\<close> accepts under the
  larger lists of excluded instructors and excluded time slots is accepted under lists
  with entries removed. Nothing is claimed for the selections of \<open>generate_timetables\<close>.
\<close>

theorem filter_monotone_in_exclusions:
  assumes "set (excluded_instructors cons') \<subseteq> set (excluded_instructors cons)"
    and "set (excluded_time_slots cons') \<subseteq> set (excluded_time_slots cons)"
    and "required_courses cons' = required_courses cons"
    and "batch cons' = batch cons"
    and "c \<in> set (filter_courses courses cons)"
  shows "c \<in> set (filter_courses courses cons')"
proof -
  have "get_semester_prefix cons' = get_semester_prefix cons"
    using assms(4) by (simp add: get_semester_prefix_def)
  then show ?thesis
    using assms instructor_excluded_mono [OF assms(1)] slot_excluded_mono [OF assms(2)]
    by (auto simp: filter_courses_iff)
qed

theorem filter_monotone_in_exclusions_witness:
  "excluded_instructors relaxed_constraints = remove1 ''omar'' (excluded_instructors clash_constraints) \<and>
   web_a \<in> set (filter_courses clash_catalog clash_constraints) \<and>
   web_a \<in> set (filter_courses clash_catalog relaxed_constraints) \<and>
   ml_a \<notin> set (filter_courses clash_catalog clash_constraints) \<and>
   ml_a \<in> set (filter_courses clash_catalog relaxed_constraints)"
proof -
  have r: "excluded_instructors relaxed_constraints =
             remove1 ''omar'' (excluded_instructors clash_constraints)" by code_simp
  have h1: "set (excluded_instructors relaxed_constraints) \<subseteq> set (excluded_instructors clash_constraints)"
    by code_simp
  have h2: "set (excluded_time_slots relaxed_constraints) \<subseteq> set (excluded_time_slots clash_constraints)"
    by code_simp
  have h3: "required_courses relaxed_constraints = required_courses clash_constraints"
    by code_simp
  have h4: "batch relaxed_constraints = batch clash_constraints" by code_simp
  have h5: "web_a \<in> set (filter_courses clash_catalog clash_constraints)" by code_simp
  have k: "web_a \<in> set (filter_courses clash_catalog relaxed_constraints)"
    by (rule filter_monotone_in_exclusions [OF h1 h2 h3 h4 h5])
  have m: "ml_a \<notin> set (filter_courses clash_catalog clash_constraints) \<and>
           ml_a \<in> set (filter_courses clash_catalog relaxed_constraints)" by code_simp
  show ?thesis using r h5 k m by blast
qed

text \<open>
  The selections of the generator are not monotonic: with the instructor of one of two
  clashing required courses excluded, that course is skipped and the other one is emitted
  alone; with the exclusion removed both courses resolve, every combination conflicts, and
  nothing is emitted.
\<close>

theorem relaxation_loses_selection_counterexample:
  "excluded_instructors relaxed_constraints = remove1 ''omar'' (excluded_instructors clash_constraints) \<and>
   generate_timetables clash_catalog clash_constraints 10 = [[web_a]] \<and>
   generate_timetables clash_catalog relaxed_constraints 10 = []"
  by code_simp

section \<open>Dictionaries, groups and required options\<close>

lemma map_of_dict_set: "map_of (dict_set k v d) = (map_of d)(k \<mapsto> v)"
  by (induction d) auto

lemma keys_dict_set:
  "map fst (dict_set k v d) = (if map_of d k = None then map fst d @ [k] else map fst d)"
  by (induction d) auto

lemma distinct_dict_set: "distinct (map fst d) \<Longrightarrow> distinct (map fst (dict_set k v d))"
  by (simp add: keys_dict_set map_of_eq_None_iff)

lemma map_of_dict_append:
  "map_of (dict_append k x d) = (map_of d)(k \<mapsto> get_list d k @ [x])"
  by (auto simp: dict_append_def map_of_dict_set get_list_def Let_def)

lemma get_list_dict_append:
  "get_list (dict_append k x d) n = (if n = k then get_list d k @ [x] else get_list d n)"
  by (simp add: get_list_def map_of_dict_append)

lemma keys_dict_append:
  "map fst (dict_append k x d) = (if map_of d k = None then map fst d @ [k] else map fst d)"
  by (simp add: dict_append_def Let_def keys_dict_set map_of_dict_set)

lemma distinct_dict_append: "distinct (map fst d) \<Longrightarrow> distinct (map fst (dict_append k x d))"
  by (simp add: keys_dict_append map_of_eq_None_iff)

lemma get_unique_courses_loop_get_list:
  "get_list (get_unique_courses_loop cs g) n = get_list g n @ filter (\<lambda>c. short_title c = n) cs"
  by (induction cs arbitrary: g) (auto simp: get_list_dict_append)

lemma keys_set_dict_append: "fst ` set (dict_append k x d) = insert k (fst ` set d)"
proof -
  have "set (map fst (dict_append k x d)) = insert k (fst ` set d)"
    unfolding keys_dict_append by (auto simp: map_of_eq_None_iff)
  then show ?thesis by simp
qed

lemma get_unique_courses_loop_keys:
  "fst ` set (get_unique_courses_loop cs g) = fst ` set g \<union> short_title ` set cs"
  by (induction cs arbitrary: g) (simp_all add: keys_set_dict_append)

lemma get_unique_courses_loop_distinct:
  "distinct (map fst g) \<Longrightarrow> distinct (map fst (get_unique_courses_loop cs g))"
  by (induction cs arbitrary: g) (auto simp: distinct_dict_append)

lemma get_unique_courses_keys:
  "fst ` set (get_unique_courses cs) = short_title ` set cs"
  by (simp add: get_unique_courses_def get_unique_courses_loop_keys)

lemma get_unique_courses_distinct: "distinct (map fst (get_unique_courses cs))"
  by (simp add: get_unique_courses_def get_unique_courses_loop_distinct)

lemma map_of_get_unique_courses:
  "map_of (get_unique_courses cs) n =
     (if n \<in> short_title ` set cs then Some (filter (\<lambda>c. short_title c = n) cs) else None)"
proof (cases "n \<in> short_title ` set cs")
  case False
  then have "n \<notin> fst ` set (get_unique_courses cs)"
    using get_unique_courses_keys [of cs] by simp
  then show ?thesis using False by (simp add: map_of_eq_None_iff)
next
  case True
  then have "n \<in> fst ` set (get_unique_courses cs)"
    using get_unique_courses_keys [of cs] by simp
  then obtain l where l: "map_of (get_unique_courses cs) n = Some l"
    by (meson map_of_eq_None_iff not_Some_eq)
  have "get_list (get_unique_courses cs) n = filter (\<lambda>c. short_title c = n) cs"
    unfolding get_unique_courses_def get_unique_courses_loop_get_list by (simp add: get_list_def)
  then show ?thesis using True l by (simp add: get_list_def)
qed

lemma group_nonempty:
  assumes "map_of (get_unique_courses cs) n = Some l"
  shows "l \<noteq> [] \<and> (\<forall>c \<in> set l. short_title c = n \<and> c \<in> set cs)"
proof -
  have n: "n \<in> short_title ` set cs" and l: "l = filter (\<lambda>c. short_title c = n) cs"
    using assms by (auto simp: map_of_get_unique_courses split: if_splits)
  from n obtain c where "c \<in> set cs" "short_title c = n" by auto
  then have "c \<in> set l" by (simp add: l)
  then have "l \<noteq> []" by auto
  moreover have "\<forall>c \<in> set l. short_title c = n \<and> c \<in> set cs" by (simp add: l)
  ultimately show ?thesis by simp
qed

lemma section_options_subset: "set (fst (section_options cons n secs)) \<subseteq> set secs"
  by (auto simp: section_options_def Let_def split: section_pref.splits option.splits)

lemma section_options_nonempty: "secs \<noteq> [] \<Longrightarrow> fst (section_options cons n secs) \<noteq> []"
  by (auto simp: section_options_def Let_def split: section_pref.splits option.splits)

lemma required_loop_fst:
  "fst (required_loop cons g names (opts, out)) =
     opts @ map (\<lambda>n. fst (section_options cons n (get_list g n)))
              (filter (\<lambda>n. map_of g n \<noteq> None) names)"
proof (induction names arbitrary: opts out)
  case Nil
  show ?case by simp
next
  case (Cons n names)
  show ?case
  proof (cases "map_of g n")
    case None
    then show ?thesis by (simp add: Cons.IH)
  next
    case (Some secs)
    then show ?thesis
      by (cases "section_options cons n secs") (simp add: Cons.IH get_list_def)
  qed
qed

lemma required_options_map:
  "required_options courses cons =
     map (\<lambda>n. fst (section_options cons n (get_list (grouped_of courses cons) n)))
       (resolvable_required courses cons)"
  by (simp add: required_options_def resolvable_required_def required_loop_fst)

lemma pref_labels_condition:
  "pref_labels pref \<noteq> [] \<longleftrightarrow> pref_truthy pref \<and> pref \<noteq> PrefStr ''any''"
  by (cases pref) auto

lemma section_options_named:
  assumes "section_preferences cons name = Some pref" "pref_labels pref \<noteq> []"
  shows "section_options cons name secs =
           (if filter (\<lambda>c. section_label c \<in> set (pref_labels pref)) secs \<noteq> []
            then (filter (\<lambda>c. section_label c \<in> set (pref_labels pref)) secs, [])
            else (secs, [SectionNotFound pref name]))"
proof (cases pref)
  case (PrefStr s)
  then have "s \<noteq> []" "s \<noteq> ''any''" using assms(2) by (auto split: if_splits)
  then show ?thesis using assms(1) PrefStr by (simp add: section_options_def)
next
  case (PrefList l)
  then have "l \<noteq> []" using assms(2) by simp
  then show ?thesis using assms(1) PrefList by (simp add: section_options_def)
qed

text \<open>
  C8. For a required course that has sections in the filtered catalog and a preference
  naming section labels (a non-empty list, or a string other than \<open>'any'\<close> and the empty
  string), the option set is the sections whose label is named; when there is none, it is
  all the sections of the course and the warning is printed. The option set is never empty,
  it is the entry of the course in \<open>required_options\<close>, and no entry of \<open>required_options\<close> is
  empty. The function is total: no branch raises.
\<close>

theorem section_preference_fallback:
  assumes "map_of (grouped_of courses cons) name = Some course_sections"
    and "section_preferences cons name = Some pref"
    and "pref_labels pref \<noteq> []"
  shows "section_options cons name course_sections =
           (if filter (\<lambda>c. section_label c \<in> set (pref_labels pref)) course_sections \<noteq> []
            then (filter (\<lambda>c. section_label c \<in> set (pref_labels pref)) course_sections, [])
            else (course_sections, [SectionNotFound pref name])) \<and>
         course_sections \<noteq> [] \<and> fst (section_options cons name course_sections) \<noteq> [] \<and>
         (name \<in> set (required_courses cons) \<longrightarrow>
            fst (section_options cons name course_sections) \<in> set (required_options courses cons)) \<and>
         [] \<notin> set (required_options courses cons)"
proof -
  have ne: "course_sections \<noteq> []"
    using assms(1) group_nonempty unfolding grouped_of_def by blast
  have mem: "fst (section_options cons name course_sections) \<in> set (required_options courses cons)"
    if "name \<in> set (required_courses cons)"
  proof -
    have "name \<in> set (resolvable_required courses cons)"
      using that assms(1) by (simp add: resolvable_required_def)
    moreover have "get_list (grouped_of courses cons) name = course_sections"
      using assms(1) by (simp add: get_list_def)
    ultimately show ?thesis unfolding required_options_map by force
  qed
  have all: "[] \<notin> set (required_options courses cons)"
  proof
    assume "[] \<in> set (required_options courses cons)"
    then obtain n where n: "map_of (grouped_of courses cons) n \<noteq> None"
      "fst (section_options cons n (get_list (grouped_of courses cons) n)) = []"
      unfolding required_options_map resolvable_required_def by force
    from n(1) obtain l where l: "map_of (grouped_of courses cons) n = Some l" by blast
    then have "l \<noteq> []" using group_nonempty unfolding grouped_of_def by blast
    then show False using n(2) l section_options_nonempty by (simp add: get_list_def)
  qed
  show ?thesis
    using section_options_named [OF assms(2,3)] ne section_options_nonempty [OF ne] mem all
    by simp
qed

theorem section_preference_fallback_witness:
  "map_of (grouped_of sample_catalog pref_constraints) ''Web Pro'' = Some [web_a, web_b] \<and>
   section_options pref_constraints ''Web Pro'' [web_a, web_b] = ([web_b], []) \<and>
   required_options sample_catalog pref_constraints = [[web_b]] \<and>
   section_options lost_pref_constraints ''Web Pro'' [web_a, web_b] =
     ([web_a, web_b], [SectionNotFound (PrefStr ''BCS-8Z'') ''Web Pro'']) \<and>
   required_options sample_catalog lost_pref_constraints = [[web_a, web_b]] \<and>
   generate_timetables sample_catalog lost_pref_constraints 10 = [[web_a], [web_b]]"
proof -
  have g1: "map_of (grouped_of sample_catalog pref_constraints) ''Web Pro'' = Some [web_a, web_b]"
    by code_simp
  have p1: "section_preferences pref_constraints ''Web Pro'' = Some (PrefList [''BCS-8B'', ''BCS-8Z''])"
    by code_simp
  have l1: "pref_labels (PrefList [''BCS-8B'', ''BCS-8Z'']) \<noteq> []" by simp
  have f1: "filter (\<lambda>c. section_label c \<in> set (pref_labels (PrefList [''BCS-8B'', ''BCS-8Z''])))
              [web_a, web_b] = [web_b]" by code_simp
  have r1: "''Web Pro'' \<in> set (required_courses pref_constraints)" by code_simp
  have o1: "required_options sample_catalog pref_constraints = [[web_b]]" by code_simp
  have g2: "map_of (grouped_of sample_catalog lost_pref_constraints) ''Web Pro'' = Some [web_a, web_b]"
    by code_simp
  have p2: "section_preferences lost_pref_constraints ''Web Pro'' = Some (PrefStr ''BCS-8Z'')"
    by code_simp
  have l2: "pref_labels (PrefStr ''BCS-8Z'') \<noteq> []" by simp
  have f2: "filter (\<lambda>c. section_label c \<in> set (pref_labels (PrefStr ''BCS-8Z'')))
              [web_a, web_b] = []" by code_simp
  have o2: "required_options sample_catalog lost_pref_constraints = [[web_a, web_b]]" by code_simp
  have t2: "generate_timetables sample_catalog lost_pref_constraints 10 = [[web_a], [web_b]]"
    by code_simp
  have s1: "section_options pref_constraints ''Web Pro'' [web_a, web_b] = ([web_b], [])"
    using section_preference_fallback [OF g1 p1 l1] unfolding f1 by simp
  have s2: "section_options lost_pref_constraints ''Web Pro'' [web_a, web_b] =
     ([web_a, web_b], [SectionNotFound (PrefStr ''BCS-8Z'') ''Web Pro''])"
    using section_preference_fallback [OF g2 p2 l2] unfolding f2 by simp
  show ?thesis using g1 s1 o1 s2 o2 t2 by blast
qed

section \<open>The shape of an emitted selection\<close>

lemma iter_product_list_all2:
  "sel \<in> set (iter_product xss) \<longleftrightarrow> list_all2 (\<lambda>x xs. x \<in> set xs) sel xss"
proof (induction xss arbitrary: sel)
  case Nil
  show ?case by auto
next
  case (Cons xs xss)
  have "sel \<in> set (iter_product (xs # xss)) \<longleftrightarrow>
          (\<exists>x t. sel = x # t \<and> x \<in> set xs \<and> t \<in> set (iter_product xss))"
    by auto
  also have "\<dots> \<longleftrightarrow> (\<exists>x t. sel = x # t \<and> x \<in> set xs \<and> list_all2 (\<lambda>x xs. x \<in> set xs) t xss)"
    using Cons.IH by simp
  also have "\<dots> \<longleftrightarrow> list_all2 (\<lambda>x xs. x \<in> set xs) sel (xs # xss)"
    by (auto simp: list_all2_Cons2)
  finally show ?case .
qed

lemma list_all2_titles:
  assumes "list_all2 (\<lambda>x xs. x \<in> set xs) sel (map f names)"
    and "\<forall>n \<in> set names. \<forall>c \<in> set (f n). short_title c = n"
  shows "map short_title sel = names"
  using assms
proof (induction names arbitrary: sel)
  case Nil
  then show ?case by simp
next
  case (Cons n names)
  then show ?case by (auto simp: list_all2_Cons2)
qed

lemma grouped_get_list_titles:
  "\<forall>c \<in> set (get_list (get_unique_courses cs) n). short_title c = n"
  by (simp add: get_list_def map_of_get_unique_courses)

lemma required_combo_titles:
  assumes "req \<in> set (iter_product (required_options courses cons))"
  shows "map short_title req = resolvable_required courses cons"
proof (rule list_all2_titles)
  show "list_all2 (\<lambda>x xs. x \<in> set xs) req
          (map (\<lambda>n. fst (section_options cons n (get_list (grouped_of courses cons) n)))
             (resolvable_required courses cons))"
    using assms unfolding iter_product_list_all2 required_options_map .
  show "\<forall>n \<in> set (resolvable_required courses cons).
          \<forall>c \<in> set (fst (section_options cons n (get_list (grouped_of courses cons) n))).
            short_title c = n"
    using section_options_subset grouped_get_list_titles unfolding grouped_of_def by blast
qed

lemma iter_combinations_length: "x \<in> set (iter_combinations xs r) \<Longrightarrow> length x = r"
  by (induction xs r arbitrary: x rule: iter_combinations.induct) auto

lemma iter_combinations_subset: "x \<in> set (iter_combinations xs r) \<Longrightarrow> set x \<subseteq> set xs"
proof (induction xs r arbitrary: x rule: iter_combinations.induct)
  case (1 xs)
  then show ?case by simp
next
  case (2 r)
  then show ?case by simp
next
  case (3 y ys r)
  from "3.prems" consider t where "x = y # t" "t \<in> set (iter_combinations ys r)"
    | "x \<in> set (iter_combinations ys (Suc r))" by auto
  then show ?case
  proof cases
    case 1
    then show ?thesis using "3.IH"(1) by auto
  next
    case 2
    then show ?thesis using "3.IH"(2) by auto
  qed
qed

lemma iter_combinations_elem:
  "x \<in> set (iter_combinations xs r) \<Longrightarrow> length x = r \<and> set x \<subseteq> set xs"
  using iter_combinations_length iter_combinations_subset by blast

lemma generate_wildcard_combos_loop_elem:
  assumes "names \<in> set (generate_wildcard_combos_loop wc wbc all_combos)"
  shows "\<exists>pre \<in> set all_combos. \<exists>suf. names = pre @ suf \<and>
           length suf = sum_list (map (\<lambda>(cat, count). min count (length (get_list wbc cat))) wc) \<and>
           (\<forall>n \<in> set suf. \<exists>cat ns. map_of wbc cat = Some ns \<and> n \<in> set ns)"
  using assms
proof (induction wc arbitrary: all_combos)
  case Nil
  then show ?case by auto
next
  case (Cons p wc)
  obtain cat count where p: "p = (cat, count)" by (cases p)
  show ?case
  proof (cases "map_of wbc cat")
    case None
    then have "names \<in> set (generate_wildcard_combos_loop wc wbc all_combos)"
      using Cons.prems p by simp
    from Cons.IH [OF this] show ?thesis using None p by (simp add: get_list_def)
  next
    case (Some available)
    show ?thesis
    proof (cases "count = 0")
      case True
      then have "names \<in> set (generate_wildcard_combos_loop wc wbc all_combos)"
        using Cons.prems p Some by simp
      from Cons.IH [OF this] show ?thesis using True p by simp
    next
      case False
      define new_all where "new_all =
        concat (map (\<lambda>existing. map (\<lambda>cat_combo. existing @ cat_combo)
                       (iter_combinations available (min count (length available)))) all_combos)"
      have "names \<in> set (generate_wildcard_combos_loop wc wbc new_all)"
        using Cons.prems p Some False by (simp add: new_all_def Let_def)
      from Cons.IH [OF this] obtain pre suf where ps: "pre \<in> set new_all" "names = pre @ suf"
        "length suf = sum_list (map (\<lambda>(cat, count). min count (length (get_list wbc cat))) wc)"
        "\<forall>n \<in> set suf. \<exists>cat ns. map_of wbc cat = Some ns \<and> n \<in> set ns" by blast
      from ps(1) obtain existing cat_combo where ec: "existing \<in> set all_combos"
        "cat_combo \<in> set (iter_combinations available (min count (length available)))"
        "pre = existing @ cat_combo" by (auto simp: new_all_def)
      from iter_combinations_elem [OF ec(2)]
      have cc: "length cat_combo = min count (length available)" "set cat_combo \<subseteq> set available"
        by auto
      have len: "length (cat_combo @ suf) =
          sum_list (map (\<lambda>(cat, count). min count (length (get_list wbc cat))) (p # wc))"
        using cc(1) ps(3) p Some by (simp add: get_list_def)
      have mem: "\<forall>n \<in> set (cat_combo @ suf). \<exists>cat ns. map_of wbc cat = Some ns \<and> n \<in> set ns"
        using cc(2) ps(4) Some by auto
      have "names = existing @ (cat_combo @ suf)" using ps(2) ec(3) by simp
      then show ?thesis using ec(1) len mem by blast
    qed
  qed
qed

lemma wildcard_by_category_lookup:
  assumes "map_of (foldl (\<lambda>d (cat, courses). dict_set cat (map fst (get_unique_courses courses)) d)
                     d0 pools) cat = Some ns"
  shows "map_of d0 cat = Some ns \<or>
         (\<exists>courses. (cat, courses) \<in> set pools \<and> ns = map fst (get_unique_courses courses))"
  using assms
proof (induction pools arbitrary: d0)
  case Nil
  then show ?case by simp
next
  case (Cons p pools)
  obtain c cs where p: "p = (c, cs)" by (cases p)
  from Cons.IH [of "dict_set c (map fst (get_unique_courses cs)) d0"] Cons.prems p
  show ?case by (auto simp: map_of_dict_set split: if_splits)
qed

lemma store_sections_lookup:
  "map_of (foldl (\<lambda>d' (name, sections). dict_set name sections d') d kvs) n = Some l \<Longrightarrow>
   map_of d n = Some l \<or> (n, l) \<in> set kvs"
proof (induction kvs arbitrary: d)
  case Nil
  then show ?case by simp
next
  case (Cons p kvs)
  obtain k v where p: "p = (k, v)" by (cases p)
  from Cons.IH [of "dict_set k v d"] Cons.prems p
  show ?case by (auto simp: map_of_dict_set split: if_splits)
qed

lemma store_sections_keys:
  "map_of d n \<noteq> None \<or> n \<in> fst ` set kvs \<Longrightarrow>
   map_of (foldl (\<lambda>d' (name, sections). dict_set name sections d') d kvs) n \<noteq> None"
proof (induction kvs arbitrary: d)
  case Nil
  then show ?case by simp
next
  case (Cons p kvs)
  obtain k v where p: "p = (k, v)" by (cases p)
  have "map_of (dict_set k v d) n \<noteq> None \<or> n \<in> fst ` set kvs"
    using Cons.prems p by (auto simp: map_of_dict_set)
  from Cons.IH [OF this] show ?case using p by simp
qed

lemma wildcard_sections_lookup:
  assumes "map_of (foldl (\<lambda>d (cat, courses).
              foldl (\<lambda>d' (name, sections). dict_set name sections d') d
                (get_unique_courses courses)) d0 pools) n = Some l"
  shows "map_of d0 n = Some l \<or>
         (\<exists>cat courses. (cat, courses) \<in> set pools \<and> (n, l) \<in> set (get_unique_courses courses))"
  using assms
proof (induction pools arbitrary: d0)
  case Nil
  then show ?case by simp
next
  case (Cons p pools)
  obtain c cs where p: "p = (c, cs)" by (cases p)
  define d1 where "d1 = foldl (\<lambda>d' (name, sections). dict_set name sections d') d0
                          (get_unique_courses cs)"
  have "map_of d1 n = Some l \<or>
         (\<exists>cat courses. (cat, courses) \<in> set pools \<and> (n, l) \<in> set (get_unique_courses courses))"
    using Cons.IH [of d1] Cons.prems p by (simp add: d1_def)
  then show ?case using store_sections_lookup [of d0 "get_unique_courses cs" n l] p
    by (auto simp: d1_def)
qed

lemma wildcard_sections_keys:
  assumes "map_of d0 n \<noteq> None \<or>
           (\<exists>cat courses. (cat, courses) \<in> set pools \<and> n \<in> fst ` set (get_unique_courses courses))"
  shows "map_of (foldl (\<lambda>d (cat, courses).
              foldl (\<lambda>d' (name, sections). dict_set name sections d') d
                (get_unique_courses courses)) d0 pools) n \<noteq> None"
  using assms
proof (induction pools arbitrary: d0)
  case Nil
  then show ?case by simp
next
  case (Cons p pools)
  obtain c cs where p: "p = (c, cs)" by (cases p)
  define d1 where "d1 = foldl (\<lambda>d' (name, sections). dict_set name sections d') d0
                          (get_unique_courses cs)"
  have "map_of d1 n \<noteq> None \<or>
        (\<exists>cat courses. (cat, courses) \<in> set pools \<and> n \<in> fst ` set (get_unique_courses courses))"
  proof (cases "\<exists>cat courses. (cat, courses) \<in> set pools \<and>
                    n \<in> fst ` set (get_unique_courses courses)")
    case True
    then show ?thesis by simp
  next
    case False
    then have "map_of d0 n \<noteq> None \<or> n \<in> fst ` set (get_unique_courses cs)"
      using Cons.prems p by auto
    then have "map_of d1 n \<noteq> None" unfolding d1_def by (rule store_sections_keys)
    then show ?thesis by simp
  qed
  from Cons.IH [OF this] show ?case using p by (simp add: d1_def)
qed

lemma wildcard_name_sections:
  assumes "map_of (wildcard_by_category pools) cat = Some ns" "n \<in> set ns"
  shows "get_list (wildcard_sections_by_name pools) n \<noteq> [] \<and>
         (\<forall>c \<in> set (get_list (wildcard_sections_by_name pools) n). short_title c = n)"
proof -
  from wildcard_by_category_lookup [of "[]" pools cat ns] assms(1)
  obtain courses where c: "(cat, courses) \<in> set pools" "ns = map fst (get_unique_courses courses)"
    by (auto simp: wildcard_by_category_def)
  have "n \<in> fst ` set (get_unique_courses courses)" using assms(2) c(2) by simp
  then have "map_of (wildcard_sections_by_name pools) n \<noteq> None"
    unfolding wildcard_sections_by_name_def using c(1) by (intro wildcard_sections_keys) blast
  then obtain l where l: "map_of (wildcard_sections_by_name pools) n = Some l" by blast
  from wildcard_sections_lookup [of "[]" pools n l] l
  obtain cat' courses' where "(n, l) \<in> set (get_unique_courses courses')"
    by (auto simp: wildcard_sections_by_name_def)
  then have "map_of (get_unique_courses courses') n = Some l"
    using get_unique_courses_distinct by (simp add: map_of_is_SomeI)
  from group_nonempty [OF this] show ?thesis using l by (simp add: get_list_def)
qed

lemma wildcard_combo_names:
  assumes "names \<in> set (wildcard_name_combos courses cons)"
  shows "length names = wildcard_total courses cons \<and>
         (\<forall>n \<in> set names.
            get_list (wildcard_sections_by_name (pools_of courses cons)) n \<noteq> [] \<and>
            (\<forall>c \<in> set (get_list (wildcard_sections_by_name (pools_of courses cons)) n).
               short_title c = n))"
proof -
  from generate_wildcard_combos_loop_elem
    [of names "wildcard_counts cons" "wildcard_by_category (pools_of courses cons)" "[[]]"] assms
  have len: "length names =
      sum_list (map (\<lambda>(cat, count).
                  min count (length (get_list (wildcard_by_category (pools_of courses cons)) cat)))
                (wildcard_counts cons))"
    and mem: "\<forall>n \<in> set names. \<exists>cat ns.
      map_of (wildcard_by_category (pools_of courses cons)) cat = Some ns \<and> n \<in> set ns"
    by (auto simp: wildcard_name_combos_def generate_wildcard_combos_def)
  show ?thesis using len mem wildcard_name_sections
    by (fastforce simp: wildcard_total_def)
qed

lemma wildcard_combo_titles:
  assumes "names \<in> set (wildcard_name_combos courses cons)"
    and "wc \<in> set (iter_product
           (wildcard_section_options (wildcard_sections_by_name (pools_of courses cons)) names))"
  shows "map short_title wc = names"
proof -
  let ?wsbn = "wildcard_sections_by_name (pools_of courses cons)"
  have good: "\<forall>n \<in> set names. get_list ?wsbn n \<noteq> [] \<and>
                (\<forall>c \<in> set (get_list ?wsbn n). short_title c = n)"
    using wildcard_combo_names [OF assms(1)] by blast
  then have "wildcard_section_options ?wsbn names = map (get_list ?wsbn) names"
    by (simp add: wildcard_section_options_def filter_id_conv)
  then have "list_all2 (\<lambda>x xs. x \<in> set xs) wc (map (get_list ?wsbn) names)"
    using assms(2) by (simp add: iter_product_list_all2)
  then show ?thesis using good by (intro list_all2_titles) auto
qed

lemma candidates_titles:
  assumes "sel \<in> set (candidates courses cons)"
  shows "\<exists>names \<in> set (wildcard_name_combos courses cons).
           map short_title sel = resolvable_required courses cons @ names"
proof -
  from assms obtain req names wc where
    req: "req \<in> set (iter_product (required_options courses cons))" and
    names: "names \<in> set (wildcard_name_combos courses cons)" and
    wc: "wc \<in> set (iter_product
           (wildcard_section_options (wildcard_sections_by_name (pools_of courses cons)) names))" and
    sel: "sel = req @ wc"
    by (auto simp: candidates_def candidates_for_def)
  have "map short_title sel = resolvable_required courses cons @ names"
    using sel required_combo_titles [OF req] wildcard_combo_titles [OF names wc] by simp
  then show ?thesis using names by blast
qed

lemma generate_timetables_candidates:
  "set (generate_timetables courses cons k) \<subseteq> set (candidates courses cons)"
  using generate_timetables_subset [of courses cons k]
  by (auto simp: enumeration_def split: if_splits)

lemma resolvable_all:
  "set (required_courses cons) \<subseteq> fst ` set (grouped_of courses cons) \<Longrightarrow>
   resolvable_required courses cons = required_courses cons"
  unfolding resolvable_required_def filter_id_conv
  by (metis map_of_eq_None_iff subsetD)

text \<open>The names available in a category are the distinct short titles of its pool.\<close>

lemma wildcard_by_category_distinct_lookup:
  assumes "distinct (map fst pools)"
  shows "map_of (foldl (\<lambda>d (cat, courses). dict_set cat (map fst (get_unique_courses courses)) d)
                   d0 pools) cat =
         (case map_of pools cat of
            Some cs \<Rightarrow> Some (map fst (get_unique_courses cs))
          | None \<Rightarrow> map_of d0 cat)"
  using assms
proof (induction pools arbitrary: d0)
  case Nil
  show ?case by simp
next
  case (Cons p pools)
  obtain c cs where p: "p = (c, cs)" by (cases p)
  have d: "distinct (map fst pools)" and n: "map_of pools c = None"
    using Cons.prems p by (auto simp: map_of_eq_None_iff)
  show ?case using Cons.IH [OF d, of "dict_set c (map fst (get_unique_courses cs)) d0"] p n
    by (auto simp: map_of_dict_set split: option.splits)
qed

lemma empty_pools_distinct:
  "distinct (map fst d) \<Longrightarrow> distinct (map fst (foldl (\<lambda>d cat. dict_set cat [] d) d cats))"
  by (induction cats arbitrary: d) (auto simp: distinct_dict_set)

lemma wildcard_pools_loop_distinct:
  "distinct (map fst pools) \<Longrightarrow> distinct (map fst (wildcard_pools_loop cons cs pools))"
  by (induction cs arbitrary: pools) (auto simp: distinct_dict_append split: option.splits)

lemma pools_of_distinct: "distinct (map fst (pools_of courses cons))"
  by (simp add: pools_of_def wildcard_pools_def wildcard_pools_loop_distinct empty_pools_distinct)

lemma names_of_pool_length:
  "length (map fst (get_unique_courses cs)) = card (short_title ` set cs)"
proof -
  have "card (set (map fst (get_unique_courses cs))) = length (map fst (get_unique_courses cs))"
    by (rule distinct_card) (rule get_unique_courses_distinct)
  then show ?thesis using get_unique_courses_keys [of cs] by simp
qed

lemma available_names_count:
  "length (get_list (wildcard_by_category (pools_of courses cons)) cat) =
     card (short_title ` set (get_list (pools_of courses cons) cat))"
proof -
  have look: "map_of (wildcard_by_category (pools_of courses cons)) cat =
        (case map_of (pools_of courses cons) cat of
           Some cs \<Rightarrow> Some (map fst (get_unique_courses cs))
         | None \<Rightarrow> None)"
    unfolding wildcard_by_category_def
    by (simp add: wildcard_by_category_distinct_lookup [OF pools_of_distinct] split: option.split)
  show ?thesis
  proof (cases "map_of (pools_of courses cons) cat")
    case None
    then show ?thesis using look by (simp add: get_list_def)
  next
    case (Some cs)
    then show ?thesis using look names_of_pool_length [of cs] by (simp add: get_list_def)
  qed
qed

lemma wildcard_total_pools:
  "wildcard_total courses cons =
     sum_list (map (\<lambda>(cat, count).
                      min count (card (short_title ` set (get_list (pools_of courses cons) cat))))
                 (wildcard_counts cons))"
  by (simp add: wildcard_total_def available_names_count)

text \<open>
  C3, as amended. Every emitted selection consists of one offering per required name
  that has a group in the filtered catalog, in the order of \<open>required_courses\<close> (a name
  without a group is skipped with a warning and contributes no offering), followed by one
  offering per name of one wildcard name combination. The number of wildcard offerings is
  the sum, over the wildcard categories, of the smaller of the quota and the number of
  course names available in the category. When every required name has a group, the
  selection has \<open>len(required_courses)\<close> required offerings.
\<close>

theorem selection_cardinality:
  assumes "sel \<in> set (generate_timetables courses cons max_results)"
  shows "(\<exists>names \<in> set (wildcard_name_combos courses cons).
            map short_title sel = resolvable_required courses cons @ names \<and>
            length names = wildcard_total courses cons) \<and>
         length sel = length (resolvable_required courses cons) + wildcard_total courses cons \<and>
         (set (required_courses cons) \<subseteq> fst ` set (grouped_of courses cons) \<longrightarrow>
            length sel = length (required_courses cons) + wildcard_total courses cons) \<and>
         wildcard_total courses cons =
           sum_list (map (\<lambda>(cat, count).
                       min count (card (short_title ` set (get_list (pools_of courses cons) cat))))
                     (wildcard_counts cons))"
proof -
  have "sel \<in> set (candidates courses cons)"
    using assms generate_timetables_candidates by blast
  from candidates_titles [OF this] obtain names where
    n: "names \<in> set (wildcard_name_combos courses cons)"
       "map short_title sel = resolvable_required courses cons @ names" by blast
  have len: "length names = wildcard_total courses cons"
    using wildcard_combo_names [OF n(1)] by blast
  have "length sel = length (map short_title sel)" by simp
  also have "\<dots> = length (resolvable_required courses cons) + wildcard_total courses cons"
    unfolding n(2) using len by simp
  finally have total:
    "length sel = length (resolvable_required courses cons) + wildcard_total courses cons" .
  have full: "length sel = length (required_courses cons) + wildcard_total courses cons"
    if "set (required_courses cons) \<subseteq> fst ` set (grouped_of courses cons)"
    using total resolvable_all [OF that] by simp
  show ?thesis using n len total full wildcard_total_pools by blast
qed

theorem selection_cardinality_witness:
  "[web_b, ml_a, mining, chain] \<in> set (generate_timetables sample_catalog greedy_constraints 10) \<and>
   wildcard_counts greedy_constraints = [(''CS Elective'', 3)] \<and>
   wildcard_total sample_catalog greedy_constraints = 2 \<and>
   resolvable_required sample_catalog greedy_constraints = [''Web Pro'', ''Applied ML''] \<and>
   [''Data Mining'', ''Blockchain''] \<in> set (wildcard_name_combos sample_catalog greedy_constraints) \<and>
   map short_title [web_b, ml_a, mining, chain] =
     resolvable_required sample_catalog greedy_constraints @ [''Data Mining'', ''Blockchain''] \<and>
   length [web_b, ml_a, mining, chain] =
     length (required_courses greedy_constraints) + wildcard_total sample_catalog greedy_constraints"
proof -
  have mem: "[web_b, ml_a, mining, chain] \<in>
               set (generate_timetables sample_catalog greedy_constraints 10)" by code_simp
  have sub: "set (required_courses greedy_constraints) \<subseteq>
               fst ` set (grouped_of sample_catalog greedy_constraints)" by code_simp
  have v: "wildcard_counts greedy_constraints = [(''CS Elective'', 3)] \<and>
           wildcard_total sample_catalog greedy_constraints = 2 \<and>
           resolvable_required sample_catalog greedy_constraints = [''Web Pro'', ''Applied ML''] \<and>
           [''Data Mining'', ''Blockchain''] \<in>
             set (wildcard_name_combos sample_catalog greedy_constraints) \<and>
           map short_title [web_b, ml_a, mining, chain] =
             resolvable_required sample_catalog greedy_constraints @
             [''Data Mining'', ''Blockchain'']"
    by code_simp
  from selection_cardinality [OF mem] sub
  have "length [web_b, ml_a, mining, chain] =
     length (required_courses greedy_constraints) + wildcard_total sample_catalog greedy_constraints"
    by blast
  with mem v show ?thesis by blast
qed

text \<open>
  With two required names of which one has no offering, the emitted selections hold one
  offering, not two.
\<close>

theorem unresolved_required_counterexample:
  "[web_a] \<in> set (generate_timetables sample_catalog missing_constraints 10) \<and>
   length (required_courses missing_constraints) = 2 \<and>
   sum_list (map snd (wildcard_counts missing_constraints)) = 0 \<and>
   length [web_a] = 1"
  by code_simp

end
